theory Spec2Isabelle
  imports Complex_Main "HOL-Library.Word" "HOL-Library.AList"
begin

text \<open>
  A shallow embedding of the scheduler extender: the spike detector and the controller
  with its two handlers (spike.go), the dependency graph and the node scorer
  (dependency.go), the gang manager (gang.go) and the counters of the metrics registry.
  Strings are byte strings. A Go map is an association list with unique keys, kept so by
  \<open>AList.update\<close>; \<open>map_of\<close> reads it and its length is \<^verbatim>\<open>len\<close>. What the process
  reads from outside (telemetry answers, inventory listings, the clock, the environment)
  is an argument of the function that reads it. The locks are not modelled: every
  operation is one atomic step. The latency histograms, which only record wall-clock
  durations, are left out.
\<close>

section \<open>Strings: the library calls of dependency.go\<close>

text \<open>
  \<^verbatim>\<open>strings.Split(s, "-")\<close> cuts at every separator and keeps empty pieces; the result
  of splitting any string, the empty one included, has at least one element.
\<close>

fun splitOn :: "char \<Rightarrow> string \<Rightarrow> string list" where
  "splitOn c [] = [[]]"
| "splitOn c (x # xs) =
     (if x = c then [] # splitOn c xs
      else (case splitOn c xs of [] \<Rightarrow> [[x]] | p # ps \<Rightarrow> (x # p) # ps))"

text \<open>\<^verbatim>\<open>strings.Join(parts, "-")\<close>.\<close>

fun joinWith :: "string \<Rightarrow> string list \<Rightarrow> string" where
  "joinWith sep [] = []"
| "joinWith sep [p] = p"
| "joinWith sep (p # q # ps) = p @ sep @ joinWith sep (q # ps)"

text \<open>
  \<^verbatim>\<open>strings.TrimSpace\<close> on the ASCII white space (tab, line feed, vertical tab, form
  feed, carriage return, space); the Unicode spaces outside ASCII are not modelled.
\<close>

definition isSpace :: "char \<Rightarrow> bool" where
  "isSpace c = (c \<in> set [CHR 0x09, CHR 0x0A, CHR 0x0B, CHR 0x0C, CHR 0x0D, CHR '' ''])"

definition TrimSpace :: "string \<Rightarrow> string" where
  "TrimSpace s = rev (dropWhile isSpace (rev (dropWhile isSpace s)))"

text \<open>
  \<^verbatim>\<open>strings.EqualFold\<close> on ASCII: equality up to the case of the letters A to Z. The
  case folding of runes outside ASCII is not modelled; Kubernetes object names are
  lower-case ASCII.
\<close>

definition toLower :: "char \<Rightarrow> char" where
  "toLower c =
     (case map_of (zip ''ABCDEFGHIJKLMNOPQRSTUVWXYZ'' ''abcdefghijklmnopqrstuvwxyz'') c of
        Some l \<Rightarrow> l
      | None \<Rightarrow> c)"

definition EqualFold :: "string \<Rightarrow> string \<Rightarrow> bool" where
  "EqualFold s t = (map toLower s = map toLower t)"

text \<open>The verb \<^verbatim>\<open>%d\<close> of \<^verbatim>\<open>fmt.Sprintf\<close> on a non-negative integer: its decimal digits.\<close>

definition digit :: "nat \<Rightarrow> char" where
  "digit n = ''0123456789'' ! n"

fun fmt_d :: "nat \<Rightarrow> string" where
  "fmt_d n = (if n < 10 then [digit n] else fmt_d (n div 10) @ [digit (n mod 10)])"

declare fmt_d.simps [simp del]

section \<open>Service-identifier derivation (dependency.go)\<close>

text \<open>\<^verbatim>\<open>isKnownService\<close>: membership in the hard-coded dictionary.\<close>

definition known :: "string list" where
  "known = [''cartservice'', ''paymentservice'', ''checkoutservice'', ''currencyservice'',
            ''frontend'', ''productcatalogservice'', ''recommendationservice'',
            ''emailservice'', ''shippingservice'', ''adservice'', ''redis-cart'',
            ''loadgenerator'']"

definition isKnownService :: "string \<Rightarrow> bool" where
  "isKnownService name = (name \<in> set known)"

text \<open>
  The loop \<^verbatim>\<open>for i := len(parts) - 1; i >= 2; i-- { ... }\<close> of
  \<^verbatim>\<open>extractServiceName\<close>: the first candidate \<^verbatim>\<open>strings.Join(parts[:i], "-")\<close>
  that is a known service, counting \<open>i\<close> down and stopping below 2.
\<close>

fun findKnown :: "string list \<Rightarrow> nat \<Rightarrow> string option" where
  "findKnown parts i =
     (if i < 2 then None
      else if isKnownService (joinWith ''-'' (take i parts))
           then Some (joinWith ''-'' (take i parts))
           else findKnown parts (i - 1))"

declare findKnown.simps [simp del]

definition extractServiceName :: "string \<Rightarrow> string" where
  "extractServiceName podName =
     (let parts = splitOn CHR ''-'' podName in
      if length parts \<ge> 3 then
        (case findKnown parts (length parts - 1) of
           Some candidate \<Rightarrow> candidate
         | None \<Rightarrow> hd parts)
      else if length parts > 0 then hd parts
      else podName)"

text \<open>
  The derivation as the specification words it: the longest left-prefix of the
  hyphen-delimited components (any number of components, from all of them down to one)
  that is in the dictionary, otherwise the first component.
\<close>

definition spec_extractServiceName :: "string \<Rightarrow> string" where
  "spec_extractServiceName podName =
     (let parts = splitOn CHR ''-'' podName in
      case find isKnownService
             (map (\<lambda>i. joinWith ''-'' (take i parts)) (rev [1..<Suc (length parts)])) of
        Some candidate \<Rightarrow> candidate
      | None \<Rightarrow> hd parts)"

section \<open>Orchestrator objects\<close>

text \<open>
  The fields of \<^verbatim>\<open>v1.Pod\<close> and \<^verbatim>\<open>v1.Node\<close> that the code reads. A taint is its key,
  a condition its type and status; \<^verbatim>\<open>Status.Allocatable\<close> is given by the two numbers
  the scorer takes from it, \<^verbatim>\<open>Cpu().MilliValue()\<close> and \<^verbatim>\<open>Memory().Value()\<close>. A nil
  annotation map is the empty list.
\<close>

record Pod =
  pod_Name :: string
  Annotations :: "(string \<times> string) list"

record Node =
  node_Name :: string
  Taints :: "string list"
  Conditions :: "(string \<times> string) list"
  cpuMillis :: int
  memBytes :: int

datatype error = ListFailed

text \<open>
  The inventory as the scorer queries it: the pods listed with the field selector
  \<^verbatim>\<open>spec.nodeName=<name>\<close>, or the error of the list call.
\<close>

type_synonym Inventory = "string \<Rightarrow> error + Pod list"

text \<open>\<^verbatim>\<open>isNodeSchedulable\<close> (spike.go).\<close>

definition isNodeSchedulable :: "Node \<Rightarrow> bool" where
  "isNodeSchedulable node =
     (if list_ex (\<lambda>key. key = ''node.kubernetes.io/unschedulable'') (Taints node) then False
      else list_ex (\<lambda>(ty, status). ty = ''Ready'' \<and> status = ''True'') (Conditions node))"

section \<open>Spike detector (spike.go)\<close>

text \<open>
  A \<^verbatim>\<open>float64\<close> as far as \<^verbatim>\<open>>\<close> can tell: a finite value, an infinity or NaN.
  Every comparison with NaN is false.
\<close>

datatype float64 = Finite real | PosInf | NegInf | NaN

fun f64_gt :: "float64 \<Rightarrow> float64 \<Rightarrow> bool" where
  "f64_gt NaN _ = False"
| "f64_gt _ NaN = False"
| "f64_gt (Finite a) (Finite b) = (a > b)"
| "f64_gt PosInf PosInf = False"
| "f64_gt PosInf _ = True"
| "f64_gt _ PosInf = False"
| "f64_gt NegInf _ = False"
| "f64_gt (Finite a) NegInf = True"

record SpikeDetector =
  qpsThreshold :: float64
  errorThreshold :: float64
  p95LatencyThreshold :: float64
  fallbackThreshold :: int

text \<open>
  The three environment variables after \<^verbatim>\<open>strconv.ParseFloat\<close>: \<open>None\<close> when the
  variable is unset, empty or does not parse.
\<close>

record Env =
  SPIKE_QPS_THRESHOLD :: "float64 option"
  SPIKE_ERROR_THRESHOLD :: "float64 option"
  SPIKE_P95_LATENCY_THRESHOLD :: "float64 option"

definition NewSpikeDetector :: "Env \<Rightarrow> SpikeDetector" where
  "NewSpikeDetector env =
     \<lparr>qpsThreshold = (case SPIKE_QPS_THRESHOLD env of Some val \<Rightarrow> val | None \<Rightarrow> Finite 1000),
      errorThreshold = (case SPIKE_ERROR_THRESHOLD env of Some val \<Rightarrow> val | None \<Rightarrow> Finite 50),
      p95LatencyThreshold =
        (case SPIKE_P95_LATENCY_THRESHOLD env of Some val \<Rightarrow> val | None \<Rightarrow> Finite 500),
      fallbackThreshold = 5\<rparr>"

text \<open>
  What the telemetry backend answers during one call of \<^verbatim>\<open>Detect\<close>: the liveness
  probe, and for each of the four queries the value of \<^verbatim>\<open>queryPrometheus\<close> or \<open>None\<close>
  for its error.
\<close>

record Telemetry =
  isPrometheusReachable :: bool
  queryQPS :: "float64 option"
  queryErrorRate :: "float64 option"
  queryP95Latency :: "float64 option"
  queryHPA :: "float64 option"

definition exceeds :: "float64 option \<Rightarrow> float64 \<Rightarrow> bool" where
  "exceeds r threshold = (case r of None \<Rightarrow> False | Some v \<Rightarrow> f64_gt v threshold)"

definition Detect :: "SpikeDetector \<Rightarrow> Telemetry \<Rightarrow> int \<Rightarrow> bool" where
  "Detect sd tel pendingPodCount =
     (if \<not> isPrometheusReachable tel then pendingPodCount \<ge> fallbackThreshold sd
      else if exceeds (queryQPS tel) (qpsThreshold sd) then True
      else if exceeds (queryErrorRate tel) (errorThreshold sd) then True
      else if exceeds (queryP95Latency tel) (p95LatencyThreshold sd) then True
      else if exceeds (queryHPA tel) (Finite 0) then True
      else False)"

section \<open>Counters of the metrics registry\<close>

text \<open>The fields are \<^verbatim>\<open>int64\<close>: \<^verbatim>\<open>++\<close> is addition on 64-bit words.\<close>

record NEXUSMetrics =
  spikeEvents :: "64 word"
  gangsFormed :: "64 word"
  gangsDisssolved :: "64 word"
  filterCalls :: "64 word"
  prioritizeCalls :: "64 word"
  stateChanges :: "64 word"
  currentState :: string

definition NewNEXUSMetrics :: NEXUSMetrics where
  "NewNEXUSMetrics =
     \<lparr>spikeEvents = 0, gangsFormed = 0, gangsDisssolved = 0, filterCalls = 0,
      prioritizeCalls = 0, stateChanges = 0, currentState = ''IDLE''\<rparr>"

definition IncrementCounter :: "string \<Rightarrow> NEXUSMetrics \<Rightarrow> NEXUSMetrics" where
  "IncrementCounter name m =
     (if name = ''spike_events'' then m\<lparr>spikeEvents := spikeEvents m + 1\<rparr>
      else if name = ''gangs_formed'' then m\<lparr>gangsFormed := gangsFormed m + 1\<rparr>
      else if name = ''gangs_dissolved'' then m\<lparr>gangsDisssolved := gangsDisssolved m + 1\<rparr>
      else if name = ''filter_calls'' then m\<lparr>filterCalls := filterCalls m + 1\<rparr>
      else if name = ''prioritize_calls'' then m\<lparr>prioritizeCalls := prioritizeCalls m + 1\<rparr>
      else if name = ''state_changes'' then m\<lparr>stateChanges := stateChanges m + 1\<rparr>
      else m)"

section \<open>Dependency graph (dependency.go)\<close>

record RuntimeGroup =
  group_Name :: string
  Services :: "string list"

record DependencyGraph =
  groups :: "RuntimeGroup list"
  built :: bool

definition NewDependencyGraph :: DependencyGraph where
  "NewDependencyGraph = \<lparr>groups = [], built = False\<rparr>"

definition AnnotationDependsOn :: string where
  "AnnotationDependsOn = ''nexus.io/depends-on''"

definition AnnotationServiceGroup :: string where
  "AnnotationServiceGroup = ''nexus.io/service-group''"

text \<open>
  \<^verbatim>\<open>groupMap\<close>, a map from a group name to a set of services, is an association list
  from the name to the list of the services without repetition, both in the order of
  first insertion. Go iterates over a map in an unspecified order, so the lists that
  \<^verbatim>\<open>BuildFromAnnotations\<close> builds from \<^verbatim>\<open>groupMap\<close> come in any order; the model
  fixes the order of first insertion.
\<close>

type_synonym GroupMap = "(string \<times> string list) list"

text \<open>\<^verbatim>\<open>groupMap[groupName][service] = true\<close>, creating the inner map when it is missing.\<close>

fun addToGroup :: "string \<Rightarrow> string \<Rightarrow> GroupMap \<Rightarrow> GroupMap" where
  "addToGroup groupName svc [] = [(groupName, [svc])]"
| "addToGroup groupName svc ((name, svcs) # rest) =
     (if name = groupName then (name, if svc \<in> set svcs then svcs else svcs @ [svc]) # rest
      else (name, svcs) # addToGroup groupName svc rest)"

text \<open>The body of the loop over \<^verbatim>\<open>pods.Items\<close>.\<close>

definition scanPod :: "GroupMap \<Rightarrow> Pod \<Rightarrow> GroupMap" where
  "scanPod groupMap pod =
     (if Annotations pod = [] then groupMap
      else
        let groupName = (case map_of (Annotations pod) AnnotationServiceGroup of
                           None \<Rightarrow> [] | Some v \<Rightarrow> v)
        in if groupName = [] then groupMap
           else
             let serviceName = extractServiceName (pod_Name pod);
                 groupMap1 = addToGroup groupName serviceName groupMap
             in case map_of (Annotations pod) AnnotationDependsOn of
                  None \<Rightarrow> groupMap1
                | Some depsStr \<Rightarrow>
                    foldl (\<lambda>m dep. let dep' = TrimSpace dep
                                    in if dep' \<noteq> [] then addToGroup groupName dep' m else m)
                          groupMap1 (splitOn CHR '','' depsStr))"

definition loadExperimentDefaults :: "RuntimeGroup list" where
  "loadExperimentDefaults =
     [\<lparr>group_Name = ''checkout-flow'',
       Services = [''cartservice'', ''paymentservice'', ''checkoutservice'', ''currencyservice'']\<rparr>,
      \<lparr>group_Name = ''product-browsing'',
       Services = [''frontend'', ''productcatalogservice'', ''recommendationservice'']\<rparr>]"

text \<open>
  \<^verbatim>\<open>BuildFromAnnotations\<close>: the argument is the result of listing the pods of all
  namespaces. On a list error the graph is left as it was and the error is returned.
\<close>

definition BuildFromAnnotations :: "error + Pod list \<Rightarrow> DependencyGraph \<Rightarrow> error + DependencyGraph" where
  "BuildFromAnnotations listed dg =
     (case listed of
        Inl err \<Rightarrow> Inl err
      | Inr pods \<Rightarrow>
          let groupMap = foldl scanPod [] pods;
              discovered = map (\<lambda>(name, svcs). \<lparr>group_Name = name, Services = svcs\<rparr>) groupMap
          in Inr (dg\<lparr>groups := (if length discovered = 0 then loadExperimentDefaults
                                  else discovered),
                     built := True\<rparr>))"

definition GetGroups :: "DependencyGraph \<Rightarrow> RuntimeGroup list" where
  "GetGroups dg = groups dg"

definition Clear :: "DependencyGraph \<Rightarrow> DependencyGraph" where
  "Clear dg = dg\<lparr>groups := [], built := False\<rparr>"

section \<open>Gang manager (gang.go)\<close>

datatype GangStage =
  GangStageNone | GangStageDetected | GangStageGraphBuilt | GangStageFormed
  | GangStageScheduling | GangStageCooldown | GangStageDissolved

text \<open>Instants are nanoseconds since the Unix epoch.\<close>

record Gang =
  gang_ID :: string
  Members :: "string list"
  NodePrefs :: "(string \<times> int) list"
  CreatedAt :: int
  gang_Stage :: GangStage

record GangManager =
  activeGangs :: "(string \<times> Gang) list"
  serviceToGang :: "(string \<times> string) list"
  stage :: GangStage

definition NewGangManager :: GangManager where
  "NewGangManager = \<lparr>activeGangs = [], serviceToGang = [], stage = GangStageNone\<rparr>"

definition GetStage :: "GangManager \<Rightarrow> GangStage" where
  "GetStage gm = stage gm"

definition SetStage :: "GangStage \<Rightarrow> GangManager \<Rightarrow> GangManager" where
  "SetStage st gm = gm\<lparr>stage := st\<rparr>"

definition clearGangsLocked :: "GangManager \<Rightarrow> GangManager" where
  "clearGangsLocked gm = gm\<lparr>activeGangs := [], serviceToGang := []\<rparr>"

text \<open>\<^verbatim>\<open>fmt.Sprintf("gang-%s-%d", group.Name, time.Now().UnixNano())\<close>; the clock reads
  an instant after the epoch.\<close>

definition gangID :: "string \<Rightarrow> nat \<Rightarrow> string" where
  "gangID name nano = ''gang-'' @ name @ ''-'' @ fmt_d nano"

text \<open>
  The loop of \<^verbatim>\<open>FormGangs\<close> over the groups. The clock is read twice for each group:
  \<open>idNano j\<close> is \<^verbatim>\<open>time.Now().UnixNano()\<close> for the identifier of the group at position
  \<open>j\<close>, \<open>createdAt j\<close> is \<^verbatim>\<open>time.Now()\<close> for its creation time.
\<close>

fun formLoop :: "(nat \<Rightarrow> nat) \<Rightarrow> (nat \<Rightarrow> int) \<Rightarrow> nat \<Rightarrow> RuntimeGroup list \<Rightarrow> GangManager \<Rightarrow> GangManager" where
  "formLoop idNano createdAt j [] gm = gm"
| "formLoop idNano createdAt j (grp # rest) gm =
     (let gid = gangID (group_Name grp) (idNano j);
          gang = \<lparr>gang_ID = gid, Members = Services grp, NodePrefs = [],
                  CreatedAt = createdAt j, gang_Stage = GangStageFormed\<rparr>
      in formLoop idNano createdAt (Suc j) rest
           (gm\<lparr>activeGangs := AList.update gid gang (activeGangs gm),
               serviceToGang := foldl (\<lambda>m svc. AList.update svc gid m) (serviceToGang gm)
                                      (Services grp)\<rparr>))"

text \<open>The gang manager shares the metrics registry with the controller: the
  operations that count take the registry and return it.\<close>

definition FormGangs :: "(nat \<Rightarrow> nat) \<Rightarrow> (nat \<Rightarrow> int) \<Rightarrow> RuntimeGroup list \<Rightarrow> GangManager \<times> NEXUSMetrics \<Rightarrow> GangManager \<times> NEXUSMetrics" where
  "FormGangs idNano createdAt grps gmm =
     (let gm1 = formLoop idNano createdAt 0 grps (clearGangsLocked (fst gmm))
      in (gm1\<lparr>stage := GangStageFormed\<rparr>, IncrementCounter ''gangs_formed'' (snd gmm)))"

definition GetGangForService :: "GangManager \<Rightarrow> string \<Rightarrow> Gang option" where
  "GetGangForService gm serviceName =
     (case map_of (serviceToGang gm) serviceName of
        None \<Rightarrow> None
      | Some gid \<Rightarrow> map_of (activeGangs gm) gid)"

definition GetGangForPod :: "GangManager \<Rightarrow> Pod \<Rightarrow> Gang option" where
  "GetGangForPod gm pod = GetGangForService gm (extractServiceName (pod_Name pod))"

definition GetActiveGangCount :: "GangManager \<Rightarrow> nat" where
  "GetActiveGangCount gm = length (activeGangs gm)"

definition DissolveAll :: "GangManager \<times> NEXUSMetrics \<Rightarrow> GangManager \<times> NEXUSMetrics" where
  "DissolveAll gmm =
     (let gangCount = length (activeGangs (fst gmm))
      in if gangCount = 0 then gmm
         else ((clearGangsLocked (fst gmm))\<lparr>stage := GangStageDissolved\<rparr>,
               IncrementCounter ''gangs_dissolved'' (snd gmm)))"

section \<open>Node scorer (dependency.go)\<close>

text \<open>
  Go's \<^verbatim>\<open>/\<close> on integers truncates towards zero. Scores and counts are mathematical
  integers: a count is at most the number of pods of one listing and a resource score is
  capped, so the \<^verbatim>\<open>int64\<close> arithmetic of the scorer does not wrap.
\<close>

definition quo :: "int \<Rightarrow> int \<Rightarrow> int" where
  "quo a b = sgn a * sgn b * (\<bar>a\<bar> div \<bar>b\<bar>)"

record HostPriority =
  Host :: string
  Score :: int

text \<open>The loop of \<^verbatim>\<open>countGangMembersOnNode\<close> over the listed pods; the inner loop
  stops at the first member that matches.\<close>

fun countLoop :: "string list \<Rightarrow> Pod list \<Rightarrow> nat \<Rightarrow> nat" where
  "countLoop members [] count = count"
| "countLoop members (pod # pods) count =
     countLoop members pods
       (if list_ex (\<lambda>gangMember. EqualFold (extractServiceName (pod_Name pod)) gangMember) members
        then count + 1 else count)"

definition countGangMembersOnNode :: "Inventory \<Rightarrow> Node \<Rightarrow> Gang option \<Rightarrow> nat" where
  "countGangMembersOnNode cluster node gang =
     (case gang of
        None \<Rightarrow> 0
      | Some g \<Rightarrow>
          if length (Members g) = 0 then 0
          else (case cluster (node_Name node) of
                  Inl err \<Rightarrow> 0
                | Inr pods \<Rightarrow> countLoop (Members g) pods 0))"

definition calculateLocalityScore :: "Inventory \<Rightarrow> Node \<Rightarrow> Gang option \<Rightarrow> int" where
  "calculateLocalityScore cluster node gang = int (countGangMembersOnNode cluster node gang * 100)"

definition calculateResourceScore :: "Node \<Rightarrow> Pod \<Rightarrow> int" where
  "calculateResourceScore node pod =
     (let cpuScore = quo (cpuMillis node) 100 * 10;
          memScore = quo (memBytes node) (100 * 1024 * 1024);
          cpuScore' = (if cpuScore > 100 then 100 else cpuScore);
          memScore' = (if memScore > 50 then 50 else memScore)
      in cpuScore' + memScore')"

definition scoreNode :: "Inventory \<Rightarrow> Pod \<Rightarrow> Node \<Rightarrow> Gang option \<Rightarrow> int" where
  "scoreNode cluster pod node gang =
     (let localityScore = calculateLocalityScore cluster node gang;
          resourceScore = calculateResourceScore node pod
      in localityScore + resourceScore)"

definition ScoreForExtender :: "Inventory \<Rightarrow> Pod \<Rightarrow> Node list \<Rightarrow> Gang option \<Rightarrow> HostPriority list" where
  "ScoreForExtender cluster pod nodes gang =
     map (\<lambda>node. \<lparr>Host = node_Name node, Score = scoreNode cluster pod node gang\<rparr>) nodes"

text \<open>
  The score as the specification words it: the number of gang members on the host times
  100, plus the two capped resource terms, \<open>/\<close> being the integer division of the
  language.
\<close>

definition spec_score :: "nat \<Rightarrow> int \<Rightarrow> int \<Rightarrow> int" where
  "spec_score members_on_host allocatable_cpu_millicores allocatable_memory_bytes =
     int members_on_host * 100
     + min (quo allocatable_cpu_millicores 100 * 10) 100
     + min (quo allocatable_memory_bytes (100 * 1024 * 1024)) 50"

section \<open>Controller and advisory handlers (spike.go)\<close>

datatype SchedulerState = StateIdle | StateActive

fun String :: "SchedulerState \<Rightarrow> string" where
  "String StateIdle = ''IDLE''"
| "String StateActive = ''ACTIVE''"

record ExtenderArgs =
  args_Pod :: "Pod option"
  args_Nodes :: "Node list option"
  args_NodeNames :: "string list option"

record ExtenderFilterResult =
  res_Nodes :: "Node list option"
  res_NodeNames :: "string list option"
  FailedNodes :: "(string \<times> string) list"
  res_Error :: string

text \<open>What a handler writes: status 400 when the body does not decode, otherwise the
  encoded value with status 200.\<close>

datatype 'a Response = Status400 | Status200 'a

record NEXUSScheduler =
  state :: SchedulerState
  lastSpikeTime :: int
  spikeDetector :: SpikeDetector
  depGraph :: DependencyGraph
  gangManager :: GangManager
  metrics :: NEXUSMetrics

text \<open>The zero \<^verbatim>\<open>time.Time\<close>, January 1 of year 1, in nanoseconds since the Unix epoch.\<close>

definition zeroTime :: int where
  "zeroTime = - 62135596800 * 1000000000"

definition cooldownDuration :: int where
  "cooldownDuration = 30 * 1000000000"

definition NewNEXUSScheduler :: "Env \<Rightarrow> NEXUSScheduler" where
  "NewNEXUSScheduler env =
     \<lparr>state = StateIdle, lastSpikeTime = zeroTime, spikeDetector = NewSpikeDetector env,
      depGraph = NewDependencyGraph, gangManager = NewGangManager,
      metrics = NewNEXUSMetrics\<rparr>"

definition GetState :: "NEXUSScheduler \<Rightarrow> SchedulerState" where
  "GetState s = state s"

definition SetState :: "SchedulerState \<Rightarrow> NEXUSScheduler \<Rightarrow> NEXUSScheduler" where
  "SetState st s =
     (if state s \<noteq> st
      then s\<lparr>state := st,
             metrics := IncrementCounter ''state_changes''
                          ((metrics s)\<lparr>currentState := String st\<rparr>)\<rparr>
      else s)"

text \<open>The first loop of the gang branch of \<^verbatim>\<open>handleFilter\<close>: the names of the
  candidate nodes that host at least one gang member.\<close>

definition nodesWithMembers :: "Inventory \<Rightarrow> Gang \<Rightarrow> Node list \<Rightarrow> (string \<times> bool) list" where
  "nodesWithMembers cluster gang items =
     foldl (\<lambda>m node. if countGangMembersOnNode cluster node (Some gang) > 0
                      then AList.update (node_Name node) True m else m) [] items"

text \<open>The second loop: the schedulable nodes are kept, the others are recorded in
  \<^verbatim>\<open>failedNodes\<close>.\<close>

definition keepSchedulable :: "Node list \<Rightarrow> Node list \<times> (string \<times> string) list" where
  "keepSchedulable items =
     foldl (\<lambda>(eligibleNodes, failedNodes) node.
              if isNodeSchedulable node then (eligibleNodes @ [node], failedNodes)
              else (eligibleNodes,
                    AList.update (node_Name node) ''Node not schedulable'' failedNodes))
           ([], []) items"

definition noOpinion :: "ExtenderArgs \<Rightarrow> ExtenderFilterResult" where
  "noOpinion args =
     \<lparr>res_Nodes = args_Nodes args, res_NodeNames = None, FailedNodes = [], res_Error = []\<rparr>"

text \<open>\<^verbatim>\<open>handleFilter\<close>: the body is \<open>None\<close> when it does not decode.\<close>

definition handleFilter :: "Inventory \<Rightarrow> ExtenderArgs option \<Rightarrow> NEXUSScheduler \<Rightarrow> ExtenderFilterResult Response \<times> NEXUSScheduler" where
  "handleFilter cluster body s0 =
     (let s = s0\<lparr>metrics := IncrementCounter ''filter_calls'' (metrics s0)\<rparr>
      in case body of
           None \<Rightarrow> (Status400, s)
         | Some args \<Rightarrow>
             if GetState s = StateIdle then (Status200 (noOpinion args), s)
             else (case (args_Pod args, args_Nodes args) of
                     (Some pod, Some items) \<Rightarrow>
                       (case GetGangForPod (gangManager s) pod of
                          None \<Rightarrow> (Status200 (noOpinion args), s)
                        | Some gang \<Rightarrow>
                            let (eligibleNodes, failedNodes) =
                                  (if length (nodesWithMembers cluster gang items) > 0
                                   then keepSchedulable items
                                   else (items, []))
                            in (Status200 \<lparr>res_Nodes = Some eligibleNodes, res_NodeNames = None,
                                           FailedNodes = failedNodes, res_Error = []\<rparr>, s))
                   | _ \<Rightarrow> (Status200 (noOpinion args), s)))"

definition equalScores :: "Node list \<Rightarrow> HostPriority list" where
  "equalScores items = map (\<lambda>node. \<lparr>Host = node_Name node, Score = 0\<rparr>) items"

definition handlePrioritize :: "Inventory \<Rightarrow> ExtenderArgs option \<Rightarrow> NEXUSScheduler \<Rightarrow> HostPriority list Response \<times> NEXUSScheduler" where
  "handlePrioritize cluster body s0 =
     (let s = s0\<lparr>metrics := IncrementCounter ''prioritize_calls'' (metrics s0)\<rparr>
      in case body of
           None \<Rightarrow> (Status400, s)
         | Some args \<Rightarrow>
             if GetState s = StateIdle then
               (Status200 (case args_Nodes args of None \<Rightarrow> [] | Some items \<Rightarrow> equalScores items), s)
             else (case (args_Pod args, args_Nodes args) of
                     (Some pod, Some items) \<Rightarrow>
                       (case GetGangForPod (gangManager s) pod of
                          None \<Rightarrow> (Status200 (equalScores items), s)
                        | Some gang \<Rightarrow> (Status200 (ScoreForExtender cluster pod items (Some gang)), s))
                   | _ \<Rightarrow> (Status200 [], s)))"

text \<open>
  \<^verbatim>\<open>checkForSpike\<close>, one tick of the spike watcher. Its arguments are what the tick
  reads: the telemetry answers, the result of listing the pods, the clock readings of
  \<^verbatim>\<open>FormGangs\<close> and the instant stored in \<^verbatim>\<open>lastSpikeTime\<close>.
\<close>

definition checkForSpike :: "Telemetry \<Rightarrow> error + Pod list \<Rightarrow> (nat \<Rightarrow> nat) \<Rightarrow> (nat \<Rightarrow> int) \<Rightarrow> int \<Rightarrow> NEXUSScheduler \<Rightarrow> NEXUSScheduler" where
  "checkForSpike tel listed idNano createdAt now s =
     (if GetState s = StateIdle then
        (if Detect (spikeDetector s) tel 0 then
           (let gm1 = SetStage GangStageDetected (gangManager s);
                m1 = IncrementCounter ''spike_events'' (metrics s);
                gm2 = SetStage GangStageGraphBuilt gm1
            in case BuildFromAnnotations listed (depGraph s) of
                 Inl err \<Rightarrow> s\<lparr>gangManager := gm2, metrics := m1\<rparr>
               | Inr dg \<Rightarrow>
                   let grps = GetGroups dg;
                       gmm = (if length grps > 0
                              then (let formed = FormGangs idNano createdAt grps (gm2, m1)
                                    in (SetStage GangStageScheduling (fst formed), snd formed))
                              else (gm2, m1));
                       s1 = SetState StateActive
                              (s\<lparr>depGraph := dg, gangManager := fst gmm, metrics := snd gmm\<rparr>)
                   in s1\<lparr>lastSpikeTime := now\<rparr>)
         else s)
      else s)"

text \<open>
  One tick of \<^verbatim>\<open>cooldownChecker\<close>: \<open>now\<close> is the instant of \<^verbatim>\<open>time.Since\<close>, \<open>now'\<close>
  the instant stored when the spike goes on. \<^verbatim>\<open>time.Since\<close> saturates only beyond 292
  years, far from the 30 seconds it is compared with.
\<close>

definition cooldownTick :: "int \<Rightarrow> Telemetry \<Rightarrow> int \<Rightarrow> NEXUSScheduler \<Rightarrow> NEXUSScheduler" where
  "cooldownTick now tel now' s =
     (if GetState s = StateActive then
        (if now - lastSpikeTime s > cooldownDuration then
           (if \<not> Detect (spikeDetector s) tel 0 then
              (let gm1 = SetStage GangStageCooldown (gangManager s);
                   gmm = DissolveAll (gm1, metrics s);
                   dg = Clear (depGraph s);
                   gm2 = SetStage GangStageNone (fst gmm)
               in SetState StateIdle (s\<lparr>depGraph := dg, gangManager := gm2, metrics := snd gmm\<rparr>))
            else s\<lparr>lastSpikeTime := now'\<rparr>)
         else s)
      else s)"

text \<open>What can happen to the process: a tick of either timer or an advisory request.\<close>

datatype Event =
  PollTick Telemetry "error + Pod list" "nat \<Rightarrow> nat" "nat \<Rightarrow> int" int
  | CooldownTick int Telemetry int
  | FilterRequest Inventory "ExtenderArgs option"
  | PrioritizeRequest Inventory "ExtenderArgs option"

fun step :: "Event \<Rightarrow> NEXUSScheduler \<Rightarrow> NEXUSScheduler" where
  "step (PollTick tel listed idNano createdAt now) s = checkForSpike tel listed idNano createdAt now s"
| "step (CooldownTick now tel now') s = cooldownTick now tel now' s"
| "step (FilterRequest cluster body) s = snd (handleFilter cluster body s)"
| "step (PrioritizeRequest cluster body) s = snd (handlePrioritize cluster body s)"

text \<open>The states of a run: the process starts in \<open>NewNEXUSScheduler env\<close> and takes
  one event after another.\<close>

inductive reachable :: "Env \<Rightarrow> NEXUSScheduler \<Rightarrow> bool" for env :: Env where
  init: "reachable env (NewNEXUSScheduler env)"
| next_event: "reachable env s \<Longrightarrow> reachable env (step e s)"

section \<open>The gang manager against the groups it was formed from\<close>

text \<open>
  What links a gang manager to the list of groups handed to \<^verbatim>\<open>FormGangs\<close>, with
  \<open>idNano\<close> the tags read from the clock: both maps have one entry for each key, every
  entry of the service index names an active gang that lists the service, every member
  of an active gang has an entry in the index, and every active gang is the gang of one
  of the groups.
\<close>

definition formedFrom :: "(nat \<Rightarrow> nat) \<Rightarrow> RuntimeGroup list \<Rightarrow> GangManager \<Rightarrow> bool" where
  "formedFrom idNano grps gm \<longleftrightarrow>
     distinct (map fst (serviceToGang gm)) \<and> distinct (map fst (activeGangs gm))
     \<and> (\<forall>svc gid. map_of (serviceToGang gm) svc = Some gid \<longrightarrow>
           (\<exists>g. map_of (activeGangs gm) gid = Some g \<and> svc \<in> set (Members g)))
     \<and> (\<forall>gid g svc. map_of (activeGangs gm) gid = Some g \<and> svc \<in> set (Members g) \<longrightarrow>
           map_of (serviceToGang gm) svc \<noteq> None)
     \<and> (\<forall>gid g. map_of (activeGangs gm) gid = Some g \<longrightarrow>
           (\<exists>k<length grps. gid = gangID (group_Name (grps ! k)) (idNano k)
                \<and> gang_ID g = gid \<and> Members g = Services (grps ! k)))"

section \<open>A concrete run\<close>

text \<open>
  The inputs at which the theorems below are instantiated. The environment sets no
  threshold. No pod carries an annotation, so the activation loads the two built-in
  groups. Three hosts: \<open>h1\<close> is large and hosts no gang member, \<open>h2\<close> is small and
  hosts a pod of \<^verbatim>\<open>paymentservice\<close>, \<open>h3\<close> is cordoned and hosts a pod of
  \<^verbatim>\<open>currencyservice\<close>. The workload to place is a pod of \<^verbatim>\<open>cartservice\<close>.
\<close>

definition example_env :: Env where
  "example_env = \<lparr>SPIKE_QPS_THRESHOLD = None, SPIKE_ERROR_THRESHOLD = None,
                   SPIKE_P95_LATENCY_THRESHOLD = None\<rparr>"

definition example_spike :: Telemetry where
  "example_spike = \<lparr>isPrometheusReachable = True, queryQPS = Some (Finite 1500),
                     queryErrorRate = Some (Finite 0), queryP95Latency = Some (Finite 120),
                     queryHPA = Some (Finite 0)\<rparr>"

definition example_quiet :: Telemetry where
  "example_quiet = \<lparr>isPrometheusReachable = True, queryQPS = Some (Finite 40),
                     queryErrorRate = Some (Finite 0), queryP95Latency = Some (Finite 120),
                     queryHPA = Some (Finite 0)\<rparr>"

definition example_unreachable :: Telemetry where
  "example_unreachable = \<lparr>isPrometheusReachable = False, queryQPS = None,
                           queryErrorRate = None, queryP95Latency = None, queryHPA = None\<rparr>"

definition example_t0 :: int where
  "example_t0 = 1700000000000000000"

text \<open>The clock readings of one formation: the identifier tag and the creation time
  of the group at position \<open>j\<close>.\<close>

definition example_idNano :: "nat \<Rightarrow> nat \<Rightarrow> nat" where
  "example_idNano base j = base + j"

definition example_createdAt :: "int \<Rightarrow> nat \<Rightarrow> int" where
  "example_createdAt base j = base + int j"

definition example_active :: NEXUSScheduler where
  "example_active =
     checkForSpike example_spike (Inr []) (example_idNano 1700000000000000000)
       (example_createdAt example_t0) example_t0 (NewNEXUSScheduler example_env)"

definition example_h1 :: Node where
  "example_h1 = \<lparr>node_Name = ''h1'', Taints = [], Conditions = [(''Ready'', ''True'')],
                  cpuMillis = 4000, memBytes = 17179869184\<rparr>"

definition example_h2 :: Node where
  "example_h2 = \<lparr>node_Name = ''h2'', Taints = [], Conditions = [(''Ready'', ''True'')],
                  cpuMillis = 200, memBytes = 2147483648\<rparr>"

definition example_h3 :: Node where
  "example_h3 = \<lparr>node_Name = ''h3'', Taints = [''node.kubernetes.io/unschedulable''],
                  Conditions = [(''Ready'', ''True'')],
                  cpuMillis = 4000, memBytes = 17179869184\<rparr>"

definition example_cluster :: Inventory where
  "example_cluster nodeName =
     (if nodeName = ''h2'' then Inr [\<lparr>pod_Name = ''paymentservice-6d5f7c9b8-x2k4q'', Annotations = []\<rparr>]
      else if nodeName = ''h3'' then Inr [\<lparr>pod_Name = ''currencyservice-5c8d7b6f9-k8s2p'', Annotations = []\<rparr>]
      else Inr [])"

definition example_pod :: Pod where
  "example_pod = \<lparr>pod_Name = ''cartservice-7f9c6d5b4-abcde'', Annotations = []\<rparr>"

definition example_gang :: Gang where
  "example_gang =
     \<lparr>gang_ID = ''gang-checkout-flow-1700000000000000000'',
      Members = [''cartservice'', ''paymentservice'', ''checkoutservice'', ''currencyservice''],
      NodePrefs = [], CreatedAt = 1700000000000000000, gang_Stage = GangStageFormed\<rparr>"

definition example_gang2 :: Gang where
  "example_gang2 =
     \<lparr>gang_ID = ''gang-product-browsing-1700000000000000001'',
      Members = [''frontend'', ''productcatalogservice'', ''recommendationservice''],
      NodePrefs = [], CreatedAt = 1700000000000000001, gang_Stage = GangStageFormed\<rparr>"

text \<open>
  A second inventory, with annotations: a pod of \<^verbatim>\<open>checkoutservice\<close> in the group
  \<^verbatim>\<open>checkout-flow\<close> and a pod of \<^verbatim>\<open>frontend\<close> in the group \<^verbatim>\<open>browse\<close>, both
  declaring that they depend on \<^verbatim>\<open>cartservice\<close>.
\<close>

definition example_annotated :: "Pod list" where
  "example_annotated =
     [\<lparr>pod_Name = ''checkoutservice-84cb944764-m7qzl'',
       Annotations = [(''nexus.io/service-group'', ''checkout-flow''),
                      (''nexus.io/depends-on'', ''cartservice, paymentservice'')]\<rparr>,
      \<lparr>pod_Name = ''frontend-5c8d7b6f9-k8s2p'',
       Annotations = [(''nexus.io/service-group'', ''browse''),
                      (''nexus.io/depends-on'', ''cartservice'')]\<rparr>]"

definition example_overlap :: NEXUSScheduler where
  "example_overlap =
     checkForSpike example_spike (Inr example_annotated) (example_idNano 1700000000000000000)
       (example_createdAt example_t0) example_t0 (NewNEXUSScheduler example_env)"

section \<open>Properties of the service-identifier derivation\<close>

lemma splitOn_nonempty: "splitOn c s \<noteq> []"
  by (induction s) (auto split: list.splits)

lemma findKnown_None:
  "findKnown parts i = None \<longleftrightarrow>
     (\<forall>j. 2 \<le> j \<and> j \<le> i \<longrightarrow> \<not> isKnownService (joinWith ''-'' (take j parts)))"
proof (induction parts i rule: findKnown.induct)
  case (1 parts i)
  show ?case
  proof (cases "i < 2")
    case True
    then show ?thesis by (auto simp add: findKnown.simps)
  next
    case False
    show ?thesis
    proof (cases "isKnownService (joinWith ''-'' (take i parts))")
      case True
      with False show ?thesis by (auto simp: findKnown.simps intro!: exI[of _ i])
    next
      case unknown: False
      have "findKnown parts i = findKnown parts (i - 1)"
        using False unknown by (simp add: findKnown.simps)
      moreover have "(\<forall>j. 2 \<le> j \<and> j \<le> i \<longrightarrow> \<not> isKnownService (joinWith ''-'' (take j parts)))
          \<longleftrightarrow> (\<forall>j. 2 \<le> j \<and> j \<le> i - 1 \<longrightarrow> \<not> isKnownService (joinWith ''-'' (take j parts)))"
      proof
        assume a: "\<forall>j. 2 \<le> j \<and> j \<le> i - 1 \<longrightarrow> \<not> isKnownService (joinWith ''-'' (take j parts))"
        show "\<forall>j. 2 \<le> j \<and> j \<le> i \<longrightarrow> \<not> isKnownService (joinWith ''-'' (take j parts))"
        proof (intro allI impI)
          fix j assume j: "2 \<le> j \<and> j \<le> i"
          then have "j \<le> i - 1 \<or> j = i" by arith
          then show "\<not> isKnownService (joinWith ''-'' (take j parts))"
            using a j unknown by blast
        qed
      qed auto
      ultimately show ?thesis using 1 False unknown by simp
    qed
  qed
qed

lemma findKnown_Some:
  "findKnown parts i = Some c \<Longrightarrow>
     \<exists>k. 2 \<le> k \<and> k \<le> i \<and> c = joinWith ''-'' (take k parts) \<and> isKnownService c \<and>
         (\<forall>j. k < j \<and> j \<le> i \<longrightarrow> \<not> isKnownService (joinWith ''-'' (take j parts)))"
proof (induction parts i rule: findKnown.induct)
  case (1 parts i)
  show ?case
  proof (cases "i < 2")
    case True
    with 1 show ?thesis by (simp add: findKnown.simps)
  next
    case False
    show ?thesis
    proof (cases "isKnownService (joinWith ''-'' (take i parts))")
      case True
      with False 1(2) show ?thesis
        by (auto simp: findKnown.simps intro!: exI[of _ i])
    next
      case unknown: False
      have "findKnown parts (i - 1) = Some c"
        using False unknown 1(2) by (simp add: findKnown.simps)
      from 1(1)[OF False unknown this] obtain k where k: "2 \<le> k" "k \<le> i - 1"
        "c = joinWith ''-'' (take k parts)" "isKnownService c"
        "\<forall>j. k < j \<and> j \<le> i - 1 \<longrightarrow> \<not> isKnownService (joinWith ''-'' (take j parts))"
        by blast
      have "\<forall>j. k < j \<and> j \<le> i \<longrightarrow> \<not> isKnownService (joinWith ''-'' (take j parts))"
      proof (intro allI impI)
        fix j assume j: "k < j \<and> j \<le> i"
        then have "j \<le> i - 1 \<or> j = i" by arith
        then show "\<not> isKnownService (joinWith ''-'' (take j parts))"
          using unknown k(5) j by blast
      qed
      then show ?thesis using k by (intro exI[of _ k]) auto
    qed
  qed
qed

text \<open>
  Claim C8 as stated fails on the name \<^verbatim>\<open>redis-cart\<close>: the whole name is in the
  dictionary and is the longest left-prefix of its components that matches, yet the
  derivation returns the first component. The loop only tries prefixes that drop at least
  one component, and only for names of three components or more.
\<close>

theorem extractServiceName_whole_name_counterexample:
  "isKnownService ''redis-cart'' \<and> extractServiceName ''redis-cart'' = ''redis''
   \<and> spec_extractServiceName ''redis-cart'' = ''redis-cart''"
  by code_simp

text \<open>
  What the derivation returns: among the left-prefixes of two components or more that
  leave out at least the last component, the longest one that is in the dictionary; when
  no such prefix is in the dictionary, the first component.
\<close>

lemma extractServiceName_longest_proper_prefix:
  assumes split: "splitOn CHR ''-'' podName = parts"
  shows "((\<exists>i. 2 \<le> i \<and> i < length parts \<and> isKnownService (joinWith ''-'' (take i parts)))
           \<longrightarrow> (\<exists>k. 2 \<le> k \<and> k < length parts
                    \<and> extractServiceName podName = joinWith ''-'' (take k parts)
                    \<and> isKnownService (extractServiceName podName)
                    \<and> (\<forall>j. k < j \<and> j < length parts
                          \<longrightarrow> \<not> isKnownService (joinWith ''-'' (take j parts)))))
         \<and> ((\<forall>i. 2 \<le> i \<and> i < length parts
                 \<longrightarrow> \<not> isKnownService (joinWith ''-'' (take i parts)))
             \<longrightarrow> extractServiceName podName = hd parts)"
proof -
  define n where "n = length parts"
  have A: "(\<exists>i. 2 \<le> i \<and> i < n \<and> isKnownService (joinWith ''-'' (take i parts)))
     \<longrightarrow> (\<exists>k. 2 \<le> k \<and> k < n \<and> extractServiceName podName = joinWith ''-'' (take k parts)
              \<and> isKnownService (extractServiceName podName)
              \<and> (\<forall>j. k < j \<and> j < n \<longrightarrow> \<not> isKnownService (joinWith ''-'' (take j parts))))"
  proof
    assume "\<exists>i. 2 \<le> i \<and> i < n \<and> isKnownService (joinWith ''-'' (take i parts))"
    then obtain i where i: "2 \<le> i" "i < n" "isKnownService (joinWith ''-'' (take i parts))"
      by blast
    then have n3: "3 \<le> n" by arith
    have "findKnown parts (n - 1) \<noteq> None"
      using i by (auto simp: findKnown_None intro!: exI[of _ i])
    then obtain c where c: "findKnown parts (n - 1) = Some c" by auto
    have e: "extractServiceName podName = c"
      using n3 c by (simp add: extractServiceName_def Let_def split n_def[symmetric])
    from findKnown_Some[OF c] obtain k where k: "2 \<le> k" "k \<le> n - 1"
      "c = joinWith ''-'' (take k parts)" "isKnownService c"
      "\<forall>j. k < j \<and> j \<le> n - 1 \<longrightarrow> \<not> isKnownService (joinWith ''-'' (take j parts))"
      by blast
    have "\<forall>j. k < j \<and> j < n \<longrightarrow> \<not> isKnownService (joinWith ''-'' (take j parts))"
      using k(5) by auto
    moreover have "k < n" using k(1,2) by arith
    ultimately show "\<exists>k. 2 \<le> k \<and> k < n \<and> extractServiceName podName = joinWith ''-'' (take k parts)
              \<and> isKnownService (extractServiceName podName)
              \<and> (\<forall>j. k < j \<and> j < n \<longrightarrow> \<not> isKnownService (joinWith ''-'' (take j parts)))"
      using k e by (intro exI[of _ k]) auto
  qed
  have B: "(\<forall>i. 2 \<le> i \<and> i < n \<longrightarrow> \<not> isKnownService (joinWith ''-'' (take i parts)))
      \<longrightarrow> extractServiceName podName = hd parts"
  proof
    assume none: "\<forall>i. 2 \<le> i \<and> i < n \<longrightarrow> \<not> isKnownService (joinWith ''-'' (take i parts))"
    have "findKnown parts (n - 1) = None"
      unfolding findKnown_None using none by auto
    moreover have "0 < n"
      using splitOn_nonempty[of "CHR ''-''" podName] by (simp add: n_def split)
    ultimately show "extractServiceName podName = hd parts"
      by (simp add: extractServiceName_def Let_def split n_def[symmetric])
  qed
  show ?thesis using A B unfolding n_def by blast
qed

lemma joinWith_Cons: "joinWith sep ((x # p) # ps) = x # joinWith sep (p # ps)"
  by (cases ps) auto

lemma joinWith_splitOn: "joinWith [c] (splitOn c s) = s"
proof (induction s)
  case Nil
  show ?case by simp
next
  case (Cons x xs)
  obtain p ps where sp: "splitOn c xs = p # ps"
    using splitOn_nonempty[of c xs] by (cases "splitOn c xs") auto
  show ?case using Cons sp by (simp add: joinWith_Cons)
qed

lemma find_app:
  "find P (xs @ ys) = (case find P xs of None \<Rightarrow> find P ys | Some x \<Rightarrow> Some x)"
  by (induction xs) auto

lemma findKnown_find:
  "findKnown parts i =
     find isKnownService (map (\<lambda>k. joinWith ''-'' (take k parts)) (rev [2..<Suc i]))"
proof (induction parts i rule: findKnown.induct)
  case (1 parts i)
  show ?case
  proof (cases "i < 2")
    case True
    then show ?thesis by (simp add: findKnown.simps)
  next
    case False
    then have up: "[2..<Suc i] = [2..<Suc (i - 1)] @ [i]" by (simp add: upt_Suc)
    show ?thesis
    proof (cases "isKnownService (joinWith ''-'' (take i parts))")
      case True
      then show ?thesis using False by (subst findKnown.simps) (simp add: up del: upt_Suc)
    next
      case unknown: False
      have "findKnown parts i = findKnown parts (i - 1)"
        using False unknown by (subst findKnown.simps) simp
      then show ?thesis using 1[OF False unknown] unknown by (simp add: up del: upt_Suc)
    qed
  qed
qed

text \<open>
  Claim C8, amended: for every workload name that is not itself a dictionary entry of two
  or more hyphen-delimited components, the derivation returns the longest left-prefix of
  hyphen-delimited components that is in the known-service dictionary, and the first
  component when no prefix is in it. The whole name is never tried, so for a name that is
  itself such an entry the first component is returned.
\<close>

theorem extractServiceName_refines:
  assumes "\<not> isKnownService podName \<or> length (splitOn CHR ''-'' podName) = 1"
  shows "extractServiceName podName = spec_extractServiceName podName"
proof -
  define parts where "parts = splitOn CHR ''-'' podName"
  define n where "n = length parts"
  define f where "f = (\<lambda>k. joinWith ''-'' (take k parts))"
  have n0: "0 < n" using splitOn_nonempty[of "CHR ''-''" podName] by (simp add: n_def parts_def)
  have whole: "f n = podName"
    using joinWith_splitOn[of "CHR ''-''" podName] by (simp add: f_def n_def parts_def)
  have first: "f 1 = hd parts"
    using n0 by (cases parts) (simp_all add: f_def n_def)
  have spec: "spec_extractServiceName podName =
      (case find isKnownService (map f (rev [1..<Suc n])) of Some c \<Rightarrow> c | None \<Rightarrow> hd parts)"
    by (simp add: spec_extractServiceName_def Let_def parts_def[symmetric] n_def f_def)
  have code: "extractServiceName podName =
      (if 3 \<le> n then (case findKnown parts (n - 1) of Some c \<Rightarrow> c | None \<Rightarrow> hd parts)
       else hd parts)"
    using n0 by (simp add: extractServiceName_def Let_def parts_def[symmetric] n_def)
  show ?thesis
  proof (cases "n = 1")
    case True
    then have "spec_extractServiceName podName = hd parts"
      using first by (simp add: spec split: option.splits)
    then show ?thesis using True code by simp
  next
    case False
    then have n2: "2 \<le> n" using n0 by arith
    then have unknown: "\<not> isKnownService (f n)" using assms whole False by (simp add: n_def parts_def)
    have "[1..<Suc n] = [1..<n] @ [n]" using n0 by simp
    moreover have "[1..<n] = 1 # [2..<n]" using n2 by (simp add: upt_conv_Cons numeral_2_eq_2)
    moreover have "Suc (n - 1) = n" using n0 by simp
    ultimately have up: "[1..<Suc n] = 1 # [2..<Suc (n - 1)] @ [n]" by simp
    have "find isKnownService (map f (rev [1..<Suc n])) =
        (case findKnown parts (n - 1) of
           Some c \<Rightarrow> Some c
         | None \<Rightarrow> if isKnownService (hd parts) then Some (hd parts) else None)"
      unfolding up using unknown
      using first by (simp add: find_app findKnown_find f_def[symmetric] del: upt_Suc
          split: option.splits)
    then have s: "spec_extractServiceName podName =
        (case findKnown parts (n - 1) of Some c \<Rightarrow> c | None \<Rightarrow> hd parts)"
      by (simp add: spec split: option.splits)
    have "n < 3 \<Longrightarrow> findKnown parts (n - 1) = None"
      unfolding findKnown_None by auto
    then show ?thesis using s code by (cases "3 \<le> n") auto
  qed
qed

theorem extractServiceName_refines_witness:
  "\<not> isKnownService ''redis-cart-7f9c6d5b4-x2k4q''
   \<and> extractServiceName ''redis-cart-7f9c6d5b4-x2k4q''
       = spec_extractServiceName ''redis-cart-7f9c6d5b4-x2k4q''
   \<and> spec_extractServiceName ''redis-cart-7f9c6d5b4-x2k4q'' = ''redis-cart''
   \<and> isKnownService ''frontend'' \<and> length (splitOn CHR ''-'' ''frontend'') = 1
   \<and> extractServiceName ''frontend'' = spec_extractServiceName ''frontend''
   \<and> spec_extractServiceName ''frontend'' = ''frontend''"
proof -
  have u: "\<not> isKnownService ''redis-cart-7f9c6d5b4-x2k4q''"
    by (simp add: isKnownService_def known_def)
  have k: "isKnownService ''frontend''"
    by (simp add: isKnownService_def known_def)
  have one: "length (splitOn CHR ''-'' ''frontend'') = 1" by simp
  have s1: "spec_extractServiceName ''redis-cart-7f9c6d5b4-x2k4q'' = ''redis-cart''"
    by code_simp
  have s2: "spec_extractServiceName ''frontend'' = ''frontend''"
    by code_simp
  show ?thesis
    using extractServiceName_refines[of "''redis-cart-7f9c6d5b4-x2k4q''"]
      extractServiceName_refines[of "''frontend''"] u k one s1 s2
    by simp
qed

section \<open>The controller: steps and an invariant of its runs\<close>

lemma update_nonempty: "AList.update k v al \<noteq> []"
  by (cases al) auto

lemma formLoop_activeGangs_nonempty:
  "grps \<noteq> [] \<or> activeGangs gm \<noteq> [] \<Longrightarrow> activeGangs (formLoop idNano createdAt j grps gm) \<noteq> []"
proof (induction grps arbitrary: j gm)
  case Nil
  then show ?case by simp
next
  case (Cons grp rest)
  show ?case
    by (simp add: Let_def del: AList.update.simps) (rule Cons.IH, simp add: update_nonempty)
qed

lemma FormGangs_activeGangs_nonempty:
  "grps \<noteq> [] \<Longrightarrow> activeGangs (fst (FormGangs idNano createdAt grps gmm)) \<noteq> []"
  by (simp add: FormGangs_def Let_def formLoop_activeGangs_nonempty)

lemma BuildFromAnnotations_Inr:
  "BuildFromAnnotations (Inr pods) dg = Inr dg' \<Longrightarrow> groups dg' \<noteq> [] \<and> built dg'"
  by (auto simp: BuildFromAnnotations_def Let_def loadExperimentDefaults_def split: if_splits)

lemma BuildFromAnnotations_Inl [simp]:
  "BuildFromAnnotations (Inl err) dg = Inl err"
  by (simp add: BuildFromAnnotations_def)

lemma BuildFromAnnotations_Inr_ex:
  "\<exists>dg'. BuildFromAnnotations (Inr pods) dg = Inr dg'"
  by (simp add: BuildFromAnnotations_def Let_def)

lemma DissolveAll_activeGangs [simp]: "activeGangs (fst (DissolveAll gmm)) = []"
  by (simp add: DissolveAll_def Let_def clearGangsLocked_def)

lemma DissolveAll_serviceToGang:
  "(activeGangs (fst gmm) = [] \<longrightarrow> serviceToGang (fst gmm) = []) \<Longrightarrow> serviceToGang (fst (DissolveAll gmm)) = []"
  by (simp add: DissolveAll_def Let_def clearGangsLocked_def)

lemma state_SetState [simp]: "state (SetState st s) = st"
  by (simp add: SetState_def)

lemma SetState_fields [simp]:
  "gangManager (SetState st s) = gangManager s"
  "depGraph (SetState st s) = depGraph s"
  "spikeDetector (SetState st s) = spikeDetector s"
  "lastSpikeTime (SetState st s) = lastSpikeTime s"
  by (simp_all add: SetState_def)

lemma SetStage_fields [simp]:
  "activeGangs (SetStage st gm) = activeGangs gm"
  "serviceToGang (SetStage st gm) = serviceToGang gm"
  "stage (SetStage st gm) = st"
  by (simp_all add: SetStage_def)

lemma handleFilter_snd:
  "snd (handleFilter cluster body s) = s\<lparr>metrics := IncrementCounter ''filter_calls'' (metrics s)\<rparr>"
  by (simp add: handleFilter_def Let_def split: option.splits prod.splits)

lemma handlePrioritize_snd:
  "snd (handlePrioritize cluster body s) = s\<lparr>metrics := IncrementCounter ''prioritize_calls'' (metrics s)\<rparr>"
  by (simp add: handlePrioritize_def Let_def split: option.splits prod.splits)

lemma checkForSpike_active [simp]:
  "state s = StateActive \<Longrightarrow> checkForSpike tel listed idNano createdAt now s = s"
  by (simp add: checkForSpike_def GetState_def)

lemma checkForSpike_quiet [simp]:
  "\<not> Detect (spikeDetector s) tel 0 \<Longrightarrow> checkForSpike tel listed idNano createdAt now s = s"
  by (simp add: checkForSpike_def)

lemma checkForSpike_build_failed:
  "state s = StateIdle \<Longrightarrow> Detect (spikeDetector s) tel 0 \<Longrightarrow>
   checkForSpike tel (Inl err) idNano createdAt now s =
     s\<lparr>gangManager := SetStage GangStageGraphBuilt (SetStage GangStageDetected (gangManager s)),
       metrics := IncrementCounter ''spike_events'' (metrics s)\<rparr>"
  by (simp add: checkForSpike_def GetState_def Let_def)

lemma checkForSpike_activates:
  assumes "state s = StateIdle" "Detect (spikeDetector s) tel 0"
  shows "state (checkForSpike tel (Inr pods) idNano createdAt now s) = StateActive
     \<and> activeGangs (gangManager (checkForSpike tel (Inr pods) idNano createdAt now s)) \<noteq> []
     \<and> lastSpikeTime (checkForSpike tel (Inr pods) idNano createdAt now s) = now
     \<and> spikeDetector (checkForSpike tel (Inr pods) idNano createdAt now s) = spikeDetector s"
proof -
  obtain dg where dg: "BuildFromAnnotations (Inr pods) (depGraph s) = Inr dg"
    using BuildFromAnnotations_Inr_ex by blast
  then have ne: "groups dg \<noteq> []" using BuildFromAnnotations_Inr by blast
  show ?thesis using assms dg ne
    by (simp add: checkForSpike_def GetState_def Let_def GetGroups_def FormGangs_activeGangs_nonempty)
qed

lemma cooldownTick_idle [simp]:
  "state s = StateIdle \<Longrightarrow> cooldownTick now tel now' s = s"
  by (simp add: cooldownTick_def GetState_def)

lemma cooldownTick_waiting [simp]:
  "\<not> now - lastSpikeTime s > cooldownDuration \<Longrightarrow> cooldownTick now tel now' s = s"
  by (simp add: cooldownTick_def)

lemma cooldownTick_extends:
  "state s = StateActive \<Longrightarrow> now - lastSpikeTime s > cooldownDuration \<Longrightarrow> Detect (spikeDetector s) tel 0 \<Longrightarrow>
   cooldownTick now tel now' s = s\<lparr>lastSpikeTime := now'\<rparr>"
  by (simp add: cooldownTick_def GetState_def)

lemma cooldownTick_dissolves:
  "state s = StateActive \<Longrightarrow> now - lastSpikeTime s > cooldownDuration \<Longrightarrow> \<not> Detect (spikeDetector s) tel 0 \<Longrightarrow>
   cooldownTick now tel now' s =
     SetState StateIdle
       (s\<lparr>depGraph := Clear (depGraph s),
          gangManager := SetStage GangStageNone (fst (DissolveAll (SetStage GangStageCooldown (gangManager s), metrics s))),
          metrics := snd (DissolveAll (SetStage GangStageCooldown (gangManager s), metrics s))\<rparr>)"
  by (simp add: cooldownTick_def GetState_def Let_def)

lemma state_cases: "state s = StateIdle \<or> state s = StateActive"
  by (cases "state s") auto

lemma reachable_invariant:
  "reachable env s \<Longrightarrow>
     spikeDetector s = NewSpikeDetector env
     \<and> (state s = StateIdle \<longrightarrow> activeGangs (gangManager s) = [] \<and> serviceToGang (gangManager s) = []
            \<and> groups (depGraph s) = [] \<and> \<not> built (depGraph s))
     \<and> (state s = StateActive \<longrightarrow> activeGangs (gangManager s) \<noteq> [])"
proof (induction rule: reachable.induct)
  case init
  show ?case
    by (simp add: NewNEXUSScheduler_def NewGangManager_def NewDependencyGraph_def)
next
  case (next_event s e)
  show ?case
  proof (cases e)
    case (PollTick tel listed idNano createdAt now)
    show ?thesis
    proof (cases "state s = StateIdle \<and> Detect (spikeDetector s) tel 0")
      case False
      then have "step e s = s" using PollTick state_cases[of s] by auto
      then show ?thesis using next_event.IH by simp
    next
      case True
      show ?thesis
      proof (cases listed)
        case (Inl err)
        then show ?thesis using True PollTick next_event.IH
          by (simp add: checkForSpike_build_failed)
      next
        case (Inr pods)
        then show ?thesis using True PollTick next_event.IH checkForSpike_activates[of s tel pods idNano createdAt now]
          by simp
      qed
    qed
  next
    case (CooldownTick now tel now')
    show ?thesis
    proof (cases "state s = StateActive \<and> now - lastSpikeTime s > cooldownDuration")
      case False
      then have "step e s = s" using CooldownTick state_cases[of s] by auto
      then show ?thesis using next_event.IH by simp
    next
      case True
      show ?thesis
      proof (cases "Detect (spikeDetector s) tel 0")
        case True
        then show ?thesis using \<open>state s = StateActive \<and> now - lastSpikeTime s > cooldownDuration\<close>
            CooldownTick next_event.IH by (simp add: cooldownTick_extends)
      next
        case False
        then show ?thesis using True CooldownTick next_event.IH
          by (simp add: cooldownTick_dissolves Clear_def DissolveAll_def Let_def clearGangsLocked_def)
      qed
    qed
  next
    case (FilterRequest cluster body)
    then show ?thesis using next_event.IH by (simp add: handleFilter_snd)
  next
    case (PrioritizeRequest cluster body)
    then show ?thesis using next_event.IH by (simp add: handlePrioritize_snd)
  qed
qed

lemma Detect_unreachable:
  "\<not> isPrometheusReachable tel \<Longrightarrow> Detect sd tel n = (n \<ge> fallbackThreshold sd)"
  by (simp add: Detect_def)

section \<open>Gang formation\<close>

lemma digit_in: "n < 10 \<Longrightarrow> digit n \<in> set ''0123456789''"
  unfolding digit_def by (rule nth_mem) simp

lemma fmt_d_digits: "set (fmt_d n) \<subseteq> set ''0123456789''"
proof (induction n rule: fmt_d.induct)
  case (1 n)
  show ?case
  proof (cases "n < 10")
    case True
    then show ?thesis using digit_in[of n] by (subst fmt_d.simps) simp
  next
    case False
    then show ?thesis using 1 digit_in[of "n mod 10"] by (subst fmt_d.simps) simp
  qed
qed

lemma fmt_d_no_hyphen: "CHR ''-'' \<notin> set (fmt_d n)"
  using fmt_d_digits[of n] by auto

lemma last_separator:
  "xs @ c # ys = xs' @ c # ys' \<Longrightarrow> c \<notin> set ys \<Longrightarrow> c \<notin> set ys' \<Longrightarrow> xs = xs'"
proof (induction xs arbitrary: xs')
  case Nil
  then show ?case by (cases xs') auto
next
  case (Cons x t)
  then show ?case by (cases xs') auto
qed

lemma gangID_inj: "gangID n1 t1 = gangID n2 t2 \<Longrightarrow> n1 = n2"
  unfolding gangID_def using last_separator[of n1 "CHR ''-''" "fmt_d t1" n2 "fmt_d t2"] fmt_d_no_hyphen
  by simp

lemma map_of_index_update:
  "map_of (foldl (\<lambda>m svc. AList.update svc gid m) idx svcs) svc =
     (if svc \<in> set svcs then Some gid else map_of idx svc)"
  by (induction svcs arbitrary: idx) (auto simp: update_conv')

lemma distinct_index_update:
  "distinct (map fst idx) \<Longrightarrow> distinct (map fst (foldl (\<lambda>m svc. AList.update svc gid m) idx svcs))"
  by (induction svcs arbitrary: idx) (auto simp: distinct_update)

lemma formedFrom_stage [simp]: "formedFrom idNano grps (gm\<lparr>stage := st\<rparr>) = formedFrom idNano grps gm"
  by (simp add: formedFrom_def)

lemma formedFrom_SetStage [simp]: "formedFrom idNano grps (SetStage st gm) = formedFrom idNano grps gm"
  by (simp add: SetStage_def)

lemma formedFrom_clear: "formedFrom idNano [] (clearGangsLocked gm)"
  by (simp add: formedFrom_def clearGangsLocked_def)

lemma formedFrom_empty: "activeGangs gm = [] \<Longrightarrow> serviceToGang gm = [] \<Longrightarrow> formedFrom idNano grps gm"
  by (simp add: formedFrom_def)

lemma formedFrom_step:
  assumes inv: "formedFrom idNano P gm"
    and names: "distinct (map group_Name (P @ [grp]))"
    and gid: "gid = gangID (group_Name grp) (idNano (length P))"
    and gang: "Members gang = Services grp" "gang_ID gang = gid"
  shows "formedFrom idNano (P @ [grp])
           (gm\<lparr>activeGangs := AList.update gid gang (activeGangs gm),
               serviceToGang := foldl (\<lambda>m svc. AList.update svc gid m) (serviceToGang gm)
                                      (Services grp)\<rparr>)"
proof -
  have d1: "distinct (map fst (serviceToGang gm))" and d2: "distinct (map fst (activeGangs gm))"
    and i2: "\<And>svc gid'. map_of (serviceToGang gm) svc = Some gid' \<Longrightarrow>
              \<exists>g. map_of (activeGangs gm) gid' = Some g \<and> svc \<in> set (Members g)"
    and i3: "\<And>gid' g svc. map_of (activeGangs gm) gid' = Some g \<Longrightarrow> svc \<in> set (Members g) \<Longrightarrow>
              map_of (serviceToGang gm) svc \<noteq> None"
    and i5: "\<And>gid' g. map_of (activeGangs gm) gid' = Some g \<Longrightarrow>
              \<exists>k<length P. gid' = gangID (group_Name (P ! k)) (idNano k)
                \<and> gang_ID g = gid' \<and> Members g = Services (P ! k)"
    using inv unfolding formedFrom_def by blast+
  have fresh: "map_of (activeGangs gm) gid = None"
  proof (rule ccontr)
    assume "map_of (activeGangs gm) gid \<noteq> None"
    then obtain g where "map_of (activeGangs gm) gid = Some g" by auto
    from i5[OF this] obtain k where k: "k < length P" "gid = gangID (group_Name (P ! k)) (idNano k)"
      by blast
    then have "group_Name grp = group_Name (P ! k)" using gid gangID_inj by metis
    then have "group_Name grp \<in> set (map group_Name P)" using k(1) by auto
    then show False using names by simp
  qed
  let ?gm = "gm\<lparr>activeGangs := AList.update gid gang (activeGangs gm),
               serviceToGang := foldl (\<lambda>m svc. AList.update svc gid m) (serviceToGang gm)
                                      (Services grp)\<rparr>"
  have ag: "map_of (activeGangs ?gm) = (map_of (activeGangs gm))(gid \<mapsto> gang)"
    by (simp add: update_conv')
  have ix: "\<And>svc. map_of (serviceToGang ?gm) svc =
              (if svc \<in> set (Services grp) then Some gid else map_of (serviceToGang gm) svc)"
    by (simp add: map_of_index_update)
  have c1: "distinct (map fst (serviceToGang ?gm))"
    using d1 by (simp add: distinct_index_update)
  have c2: "distinct (map fst (activeGangs ?gm))"
    using d2 by (simp add: distinct_update)
  have c3: "\<forall>svc gid'. map_of (serviceToGang ?gm) svc = Some gid' \<longrightarrow>
              (\<exists>g. map_of (activeGangs ?gm) gid' = Some g \<and> svc \<in> set (Members g))"
  proof (intro allI impI)
    fix svc gid' assume a: "map_of (serviceToGang ?gm) svc = Some gid'"
    show "\<exists>g. map_of (activeGangs ?gm) gid' = Some g \<and> svc \<in> set (Members g)"
    proof (cases "svc \<in> set (Services grp)")
      case True
      then have "gid' = gid" using a ix by simp
      then show ?thesis using True gang(1) ag by simp
    next
      case False
      then have "map_of (serviceToGang gm) svc = Some gid'" using a ix by simp
      from i2[OF this] obtain g where g: "map_of (activeGangs gm) gid' = Some g" "svc \<in> set (Members g)"
        by blast
      then have "gid' \<noteq> gid" using fresh by auto
      then show ?thesis using g ag by simp
    qed
  qed
  have c4: "\<forall>gid' g svc. map_of (activeGangs ?gm) gid' = Some g \<and> svc \<in> set (Members g) \<longrightarrow>
              map_of (serviceToGang ?gm) svc \<noteq> None"
  proof (intro allI impI)
    fix gid' g svc assume a: "map_of (activeGangs ?gm) gid' = Some g \<and> svc \<in> set (Members g)"
    show "map_of (serviceToGang ?gm) svc \<noteq> None"
    proof (cases "gid' = gid")
      case True
      then have "g = gang" using a ag by simp
      then show ?thesis using a gang(1) ix by simp
    next
      case False
      then have "map_of (activeGangs gm) gid' = Some g" using a ag by simp
      then have "map_of (serviceToGang gm) svc \<noteq> None" using i3 a by blast
      then show ?thesis using ix by simp
    qed
  qed
  have c5: "\<forall>gid' g. map_of (activeGangs ?gm) gid' = Some g \<longrightarrow>
              (\<exists>k<length (P @ [grp]). gid' = gangID (group_Name ((P @ [grp]) ! k)) (idNano k)
                \<and> gang_ID g = gid' \<and> Members g = Services ((P @ [grp]) ! k))"
  proof (intro allI impI)
    fix gid' g assume a: "map_of (activeGangs ?gm) gid' = Some g"
    show "\<exists>k<length (P @ [grp]). gid' = gangID (group_Name ((P @ [grp]) ! k)) (idNano k)
                \<and> gang_ID g = gid' \<and> Members g = Services ((P @ [grp]) ! k)"
    proof (cases "gid' = gid")
      case True
      then have "g = gang" using a ag by simp
      then show ?thesis using True gid gang by (intro exI[of _ "length P"]) simp
    next
      case False
      then have "map_of (activeGangs gm) gid' = Some g" using a ag by simp
      from i5[OF this] obtain k where k: "k < length P" "gid' = gangID (group_Name (P ! k)) (idNano k)"
        "gang_ID g = gid'" "Members g = Services (P ! k)" by blast
      then show ?thesis by (intro exI[of _ k]) (simp add: nth_append)
    qed
  qed
  show ?thesis unfolding formedFrom_def using c1 c2 c3 c4 c5 by blast
qed

lemma formLoop_formedFrom:
  "formedFrom idNano P gm \<Longrightarrow> distinct (map group_Name (P @ grps)) \<Longrightarrow>
   formedFrom idNano (P @ grps) (formLoop idNano createdAt (length P) grps gm)"
proof (induction grps arbitrary: P gm)
  case Nil
  then show ?case by simp
next
  case (Cons grp rest)
  let ?gid = "gangID (group_Name grp) (idNano (length P))"
  let ?gang = "\<lparr>gang_ID = ?gid, Members = Services grp, NodePrefs = [],
                  CreatedAt = createdAt (length P), gang_Stage = GangStageFormed\<rparr>"
  let ?gm = "gm\<lparr>activeGangs := AList.update ?gid ?gang (activeGangs gm),
               serviceToGang := foldl (\<lambda>m svc. AList.update svc ?gid m) (serviceToGang gm)
                                      (Services grp)\<rparr>"
  have names: "distinct (map group_Name (P @ [grp]))" using Cons.prems(2) by simp
  have step: "formedFrom idNano (P @ [grp]) ?gm"
    by (rule formedFrom_step[OF Cons.prems(1) names refl]) simp_all
  have "formedFrom idNano ((P @ [grp]) @ rest) (formLoop idNano createdAt (length (P @ [grp])) rest ?gm)"
    by (rule Cons.IH[OF step]) (use Cons.prems(2) in simp)
  then show ?case by (simp add: Let_def del: AList.update.simps)
qed

lemma FormGangs_formedFrom:
  "distinct (map group_Name grps) \<Longrightarrow> formedFrom idNano grps (fst (FormGangs idNano createdAt grps gmm))"
  using formLoop_formedFrom[of idNano "[]" "clearGangsLocked (fst gmm)" grps createdAt]
  by (simp add: FormGangs_def Let_def formedFrom_clear)

lemma addToGroup_keys:
  "map fst (addToGroup g svc gm) = (if g \<in> set (map fst gm) then map fst gm else map fst gm @ [g])"
proof (induction gm)
  case Nil
  show ?case by simp
next
  case (Cons entry gm)
  obtain name svcs where entry: "entry = (name, svcs)" by (cases entry)
  show ?case using Cons by (cases "name = g") (simp_all add: entry)
qed

lemma addToGroup_distinct:
  "distinct (map fst gm) \<Longrightarrow> distinct (map fst (addToGroup g svc gm))"
  by (simp add: addToGroup_keys)

lemma addDeps_distinct:
  "distinct (map fst gm) \<Longrightarrow>
   distinct (map fst (foldl (\<lambda>m dep. if TrimSpace dep \<noteq> [] then addToGroup g (TrimSpace dep) m else m)
                            gm deps))"
  by (induction deps arbitrary: gm) (simp_all add: addToGroup_distinct)

lemma scanPod_distinct:
  "distinct (map fst gm) \<Longrightarrow> distinct (map fst (scanPod gm pod))"
  by (simp add: scanPod_def Let_def addDeps_distinct addToGroup_distinct split: option.splits)

lemma scanPods_distinct:
  "distinct (map fst gm) \<Longrightarrow> distinct (map fst (foldl scanPod gm pods))"
  by (induction pods arbitrary: gm) (simp_all add: scanPod_distinct)

lemma discovered_names:
  "map group_Name (map (\<lambda>(name, svcs). \<lparr>group_Name = name, Services = svcs\<rparr>) gm) = map fst gm"
  by (induction gm) auto

lemma BuildFromAnnotations_distinct:
  assumes "BuildFromAnnotations (Inr pods) dg = Inr dg'"
  shows "distinct (map group_Name (groups dg'))"
proof -
  let ?gm = "foldl scanPod [] pods"
  have d: "distinct (map fst ?gm)"
    by (rule scanPods_distinct) simp
  show ?thesis
  proof (cases "?gm = []")
    case True
    then have "groups dg' = loadExperimentDefaults"
      using assms by (auto simp: BuildFromAnnotations_def Let_def)
    then show ?thesis by (simp add: loadExperimentDefaults_def)
  next
    case False
    then have "groups dg' = map (\<lambda>(name, svcs). \<lparr>group_Name = name, Services = svcs\<rparr>) ?gm"
      using assms by (auto simp: BuildFromAnnotations_def Let_def)
    then show ?thesis using d by (simp only: discovered_names)
  qed
qed

lemma checkForSpike_formed:
  assumes "state s = StateIdle" "Detect (spikeDetector s) tel 0"
    and "BuildFromAnnotations (Inr pods) (depGraph s) = Inr dg"
  shows "depGraph (checkForSpike tel (Inr pods) idNano createdAt now s) = dg"
    and "gangManager (checkForSpike tel (Inr pods) idNano createdAt now s) =
           SetStage GangStageScheduling
             (fst (FormGangs idNano createdAt (groups dg)
                (SetStage GangStageGraphBuilt (SetStage GangStageDetected (gangManager s)),
                 IncrementCounter ''spike_events'' (metrics s))))"
  using assms BuildFromAnnotations_Inr[OF assms(3)]
  by (simp_all add: checkForSpike_def GetState_def Let_def GetGroups_def)

lemma reachable_formedFrom:
  "reachable env s \<Longrightarrow>
     \<exists>idNano. formedFrom idNano (groups (depGraph s)) (gangManager s)"
proof (induction rule: reachable.induct)
  case init
  show ?case
    by (simp add: NewNEXUSScheduler_def NewGangManager_def formedFrom_empty)
next
  case (next_event s e)
  then obtain idNano0 where old: "formedFrom idNano0 (groups (depGraph s)) (gangManager s)"
    by blast
  show ?case
  proof (cases e)
    case (PollTick tel listed idNano createdAt now)
    show ?thesis
    proof (cases "state s = StateIdle \<and> Detect (spikeDetector s) tel 0")
      case False
      then have "step e s = s" using PollTick state_cases[of s] by auto
      then show ?thesis using old by auto
    next
      case True
      show ?thesis
      proof (cases listed)
        case (Inl err)
        then show ?thesis using True PollTick old
          by (auto simp: checkForSpike_build_failed)
      next
        case (Inr pods)
        obtain dg where dg: "BuildFromAnnotations (Inr pods) (depGraph s) = Inr dg"
          using BuildFromAnnotations_Inr_ex by blast
        have "formedFrom idNano (groups dg)
                (fst (FormGangs idNano createdAt (groups dg)
                   (SetStage GangStageGraphBuilt (SetStage GangStageDetected (gangManager s)),
                    IncrementCounter ''spike_events'' (metrics s))))"
          by (rule FormGangs_formedFrom[OF BuildFromAnnotations_distinct[OF dg]])
        then show ?thesis using True PollTick Inr checkForSpike_formed[OF _ _ dg]
          by (intro exI[of _ idNano]) simp
      qed
    qed
  next
    case (CooldownTick now tel now')
    show ?thesis
    proof (cases "state s = StateActive \<and> now - lastSpikeTime s > cooldownDuration")
      case False
      then have "step e s = s" using CooldownTick state_cases[of s] by auto
      then show ?thesis using old by auto
    next
      case True
      show ?thesis
      proof (cases "Detect (spikeDetector s) tel 0")
        case True
        then show ?thesis
          using \<open>state s = StateActive \<and> now - lastSpikeTime s > cooldownDuration\<close> CooldownTick old
          by (auto simp: cooldownTick_extends)
      next
        case False
        have "activeGangs (gangManager s) \<noteq> []"
          using reachable_invariant[OF next_event.hyps] True by simp
        then show ?thesis using True False CooldownTick
          by (simp add: cooldownTick_dissolves Clear_def DissolveAll_def Let_def
              clearGangsLocked_def formedFrom_empty)
      qed
    qed
  next
    case (FilterRequest cluster body)
    then show ?thesis using old by (auto simp: handleFilter_snd)
  next
    case (PrioritizeRequest cluster body)
    then show ?thesis using old by (auto simp: handlePrioritize_snd)
  qed
qed

section \<open>The node scorer\<close>

text \<open>On the allocatable values of a real node, which are not negative, Go's quotient
  is the quotient of the natural numbers.\<close>

lemma quo_nonneg: "0 \<le> a \<Longrightarrow> 0 < b \<Longrightarrow> quo a b = a div b"
  by (cases "a = 0") (simp_all add: quo_def)

lemma countLoop_acc:
  "countLoop members pods acc =
     acc + length (filter (\<lambda>pod. list_ex (EqualFold (extractServiceName (pod_Name pod))) members) pods)"
  by (induction pods arbitrary: acc) auto

lemma calculateResourceScore_min:
  "calculateResourceScore node pod =
     min (quo (cpuMillis node) 100 * 10) 100 + min (quo (memBytes node) (100 * 1024 * 1024)) 50"
  by (simp add: calculateResourceScore_def Let_def min_def)

lemma scoreNode_spec:
  "scoreNode cluster pod node gang =
     spec_score (countGangMembersOnNode cluster node gang) (cpuMillis node) (memBytes node)"
  by (simp add: scoreNode_def Let_def calculateLocalityScore_def calculateResourceScore_min spec_score_def)

section \<open>The concrete run, evaluated\<close>

lemma fmt_example: "fmt_d 1700000000000000000 = ''1700000000000000000''" "fmt_d 1700000000000000001 = ''1700000000000000001''"
  by (simp_all add: fmt_d.simps digit_def)

lemma Detect_example_spike: "Detect (NewSpikeDetector example_env) example_spike 0"
  by (simp add: Detect_def NewSpikeDetector_def example_env_def example_spike_def exceeds_def)

lemma Detect_example_quiet: "\<not> Detect (NewSpikeDetector example_env) example_quiet 0"
  by (simp add: Detect_def NewSpikeDetector_def example_env_def example_quiet_def exceeds_def)

lemma example_active_gangManager:
  "gangManager example_active =
     \<lparr>activeGangs =
        [(''gang-checkout-flow-1700000000000000000'', example_gang),
         (''gang-product-browsing-1700000000000000001'',
          \<lparr>gang_ID = ''gang-product-browsing-1700000000000000001'',
           Members = [''frontend'', ''productcatalogservice'', ''recommendationservice''],
           NodePrefs = [], CreatedAt = 1700000000000000001, gang_Stage = GangStageFormed\<rparr>)],
      serviceToGang =
        [(''cartservice'', ''gang-checkout-flow-1700000000000000000''),
         (''paymentservice'', ''gang-checkout-flow-1700000000000000000''),
         (''checkoutservice'', ''gang-checkout-flow-1700000000000000000''),
         (''currencyservice'', ''gang-checkout-flow-1700000000000000000''),
         (''frontend'', ''gang-product-browsing-1700000000000000001''),
         (''productcatalogservice'', ''gang-product-browsing-1700000000000000001''),
         (''recommendationservice'', ''gang-product-browsing-1700000000000000001'')],
      stage = GangStageScheduling\<rparr>"
  by (simp add: example_active_def checkForSpike_def GetState_def NewNEXUSScheduler_def
      Detect_example_spike BuildFromAnnotations_def Let_def loadExperimentDefaults_def
      GetGroups_def FormGangs_def SetStage_def clearGangsLocked_def NewGangManager_def
      NewDependencyGraph_def gangID_def fmt_example example_gang_def example_t0_def
      example_idNano_def example_createdAt_def)

lemma example_names:
  "extractServiceName ''cartservice-7f9c6d5b4-abcde'' = ''cartservice''"
  "extractServiceName ''paymentservice-6d5f7c9b8-x2k4q'' = ''paymentservice''"
  "extractServiceName ''currencyservice-5c8d7b6f9-k8s2p'' = ''currencyservice''"
  by (simp_all add: extractServiceName_def findKnown.simps isKnownService_def known_def)

lemma example_active_state:
  "state example_active = StateActive" "lastSpikeTime example_active = example_t0"
  "spikeDetector example_active = NewSpikeDetector example_env"
  using checkForSpike_activates[of "NewNEXUSScheduler example_env" example_spike "[]"
      "example_idNano 1700000000000000000" "example_createdAt example_t0" example_t0]
    Detect_example_spike
  by (simp_all add: example_active_def NewNEXUSScheduler_def)

lemma example_active_reachable: "reachable example_env example_active"
  using reachable.next_event[OF reachable.init, of example_env
      "PollTick example_spike (Inr []) (example_idNano 1700000000000000000) (example_createdAt example_t0) example_t0"]
  by (simp add: example_active_def)

lemma example_gang_for_pod:
  "GetGangForPod (gangManager example_active) example_pod = Some example_gang"
  by (simp add: GetGangForPod_def GetGangForService_def example_active_gangManager
      example_pod_def example_names)

lemma example_counts:
  "countGangMembersOnNode example_cluster example_h1 (Some example_gang) = 0"
  "countGangMembersOnNode example_cluster example_h2 (Some example_gang) = 1"
  "countGangMembersOnNode example_cluster example_h3 (Some example_gang) = 1"
  by (simp_all add: countGangMembersOnNode_def example_cluster_def example_h1_def example_h2_def
      example_h3_def example_gang_def example_names EqualFold_def toLower_def)

lemma example_resources:
  "calculateResourceScore example_h1 pod = 150"
  "calculateResourceScore example_h2 pod = 40"
  "calculateResourceScore example_h3 pod = 150"
  by (simp_all add: calculateResourceScore_def Let_def quo_def example_h1_def example_h2_def
      example_h3_def)

lemma example_scores:
  "scoreNode example_cluster example_pod example_h1 (Some example_gang) = 150"
  "scoreNode example_cluster example_pod example_h2 (Some example_gang) = 140"
  "scoreNode example_cluster example_pod example_h3 (Some example_gang) = 250"
  by (simp_all add: scoreNode_def calculateLocalityScore_def Let_def example_counts
      example_resources)

lemma example_schedulable:
  "isNodeSchedulable example_h1" "isNodeSchedulable example_h2" "\<not> isNodeSchedulable example_h3"
  by (simp_all add: isNodeSchedulable_def example_h1_def example_h2_def example_h3_def)

lemma example_elapsed: "example_t0 + 31000000000 - lastSpikeTime example_active > cooldownDuration"
  by (simp add: example_active_state cooldownDuration_def)

lemma Detect_example_unreachable: "\<not> isPrometheusReachable example_unreachable"
  by (simp add: example_unreachable_def)

lemma example_active_metrics:
  "metrics example_active =
     \<lparr>spikeEvents = 1, gangsFormed = 1, gangsDisssolved = 0, filterCalls = 0,
      prioritizeCalls = 0, stateChanges = 1, currentState = ''ACTIVE''\<rparr>"
  by (simp add: example_active_def checkForSpike_def GetState_def NewNEXUSScheduler_def
      Detect_example_spike BuildFromAnnotations_def Let_def loadExperimentDefaults_def
      GetGroups_def FormGangs_def SetState_def IncrementCounter_def NewNEXUSMetrics_def
      NewDependencyGraph_def)

lemma example_annotated_names:
  "extractServiceName ''checkoutservice-84cb944764-m7qzl'' = ''checkoutservice''"
  "extractServiceName ''frontend-5c8d7b6f9-k8s2p'' = ''frontend''"
  by (simp_all add: extractServiceName_def findKnown.simps isKnownService_def known_def)

lemma example_annotated_groups:
  "BuildFromAnnotations (Inr example_annotated) NewDependencyGraph =
     Inr \<lparr>groups = [\<lparr>group_Name = ''checkout-flow'',
                      Services = [''checkoutservice'', ''cartservice'', ''paymentservice'']\<rparr>,
                     \<lparr>group_Name = ''browse'', Services = [''frontend'', ''cartservice'']\<rparr>],
          built = True\<rparr>"
  by (simp add: BuildFromAnnotations_def Let_def example_annotated_def scanPod_def
      AnnotationServiceGroup_def AnnotationDependsOn_def example_annotated_names
      TrimSpace_def isSpace_def NewDependencyGraph_def)

lemma example_overlap_state: "state example_overlap = StateActive"
  using checkForSpike_activates[of "NewNEXUSScheduler example_env" example_spike example_annotated
      "example_idNano 1700000000000000000" "example_createdAt example_t0" example_t0]
    Detect_example_spike
  by (simp add: example_overlap_def NewNEXUSScheduler_def)

lemma example_overlap_reachable: "reachable example_env example_overlap"
  using reachable.next_event[OF reachable.init, of example_env
      "PollTick example_spike (Inr example_annotated) (example_idNano 1700000000000000000)
         (example_createdAt example_t0) example_t0"]
  by (simp add: example_overlap_def)

lemma example_overlap_gangs:
  "activeGangs (gangManager example_overlap) =
     [(''gang-checkout-flow-1700000000000000000'',
       \<lparr>gang_ID = ''gang-checkout-flow-1700000000000000000'',
        Members = [''checkoutservice'', ''cartservice'', ''paymentservice''],
        NodePrefs = [], CreatedAt = 1700000000000000000, gang_Stage = GangStageFormed\<rparr>),
      (''gang-browse-1700000000000000001'',
       \<lparr>gang_ID = ''gang-browse-1700000000000000001'',
        Members = [''frontend'', ''cartservice''],
        NodePrefs = [], CreatedAt = 1700000000000000001, gang_Stage = GangStageFormed\<rparr>)]"
proof -
  have idle: "state (NewNEXUSScheduler example_env) = StateIdle"
    by (simp add: NewNEXUSScheduler_def)
  have spike: "Detect (spikeDetector (NewNEXUSScheduler example_env)) example_spike 0"
    by (simp add: NewNEXUSScheduler_def Detect_example_spike)
  have dg: "BuildFromAnnotations (Inr example_annotated) (depGraph (NewNEXUSScheduler example_env)) =
     Inr \<lparr>groups = [\<lparr>group_Name = ''checkout-flow'',
                      Services = [''checkoutservice'', ''cartservice'', ''paymentservice'']\<rparr>,
                     \<lparr>group_Name = ''browse'', Services = [''frontend'', ''cartservice'']\<rparr>],
          built = True\<rparr>"
    by (simp add: NewNEXUSScheduler_def example_annotated_groups)
  show ?thesis
    unfolding example_overlap_def checkForSpike_formed(2)[OF idle spike dg]
    by (simp add: FormGangs_def Let_def clearGangsLocked_def gangID_def fmt_example
        example_idNano_def example_createdAt_def example_t0_def)
qed

lemma example_active_groups: "groups (depGraph example_active) = loadExperimentDefaults"
proof -
  have idle: "state (NewNEXUSScheduler example_env) = StateIdle"
    by (simp add: NewNEXUSScheduler_def)
  have spike: "Detect (spikeDetector (NewNEXUSScheduler example_env)) example_spike 0"
    by (simp add: NewNEXUSScheduler_def Detect_example_spike)
  have dg: "BuildFromAnnotations (Inr []) (depGraph (NewNEXUSScheduler example_env)) =
     Inr \<lparr>groups = loadExperimentDefaults, built = True\<rparr>"
    by (simp add: NewNEXUSScheduler_def BuildFromAnnotations_def Let_def NewDependencyGraph_def)
  show ?thesis
    unfolding example_active_def checkForSpike_formed(1)[OF idle spike dg] by simp
qed

lemma defaults_disjoint:
  "i < length loadExperimentDefaults \<and> j < length loadExperimentDefaults \<and> i \<noteq> j \<longrightarrow>
     set (Services (loadExperimentDefaults ! i)) \<inter> set (Services (loadExperimentDefaults ! j)) = {}"
proof
  assume a: "i < length loadExperimentDefaults \<and> j < length loadExperimentDefaults \<and> i \<noteq> j"
  then have "(i = 0 \<and> j = 1) \<or> (i = 1 \<and> j = 0)"
    by (auto simp: loadExperimentDefaults_def)
  then show "set (Services (loadExperimentDefaults ! i)) \<inter> set (Services (loadExperimentDefaults ! j)) = {}"
    by (auto simp: loadExperimentDefaults_def)
qed

section \<open>The advisory handlers\<close>

text \<open>
  Claim C1 as stated fails on a request that decodes and names its candidate hosts in
  the field \<^verbatim>\<open>nodenames\<close> only: in the dormant state \<^verbatim>\<open>/filter\<close> answers with no host at
  all, neither in \<^verbatim>\<open>nodes\<close> nor in \<^verbatim>\<open>nodenames\<close>, and \<^verbatim>\<open>/prioritize\<close> answers with
  the empty list, so none of the three candidates is returned or scored. The handlers
  never read \<^verbatim>\<open>nodenames\<close>.
\<close>

theorem dormant_nodenames_counterexample:
  "state (NewNEXUSScheduler example_env) = StateIdle
   \<and> fst (handleFilter example_cluster
            (Some \<lparr>args_Pod = Some example_pod, args_Nodes = None,
                   args_NodeNames = Some [''h1'', ''h2'', ''h3'']\<rparr>)
            (NewNEXUSScheduler example_env)) =
       Status200 \<lparr>res_Nodes = None, res_NodeNames = None, FailedNodes = [], res_Error = []\<rparr>
   \<and> fst (handlePrioritize example_cluster
            (Some \<lparr>args_Pod = Some example_pod, args_Nodes = None,
                   args_NodeNames = Some [''h1'', ''h2'', ''h3'']\<rparr>)
            (NewNEXUSScheduler example_env)) = Status200 []"
  by (simp add: handleFilter_def handlePrioritize_def GetState_def Let_def noOpinion_def
      NewNEXUSScheduler_def)

text \<open>
  Claim C1, amended: while the controller state is dormant (\<^verbatim>\<open>StateIdle\<close>), \<^verbatim>\<open>/filter\<close>
  answers every request that decodes with the \<^verbatim>\<open>nodes\<close> list of the request, unchanged
  and with no failed node, and \<^verbatim>\<open>/prioritize\<close> answers with score 0 for every host of that
  list, in the order of the request. Hosts named only in \<^verbatim>\<open>nodenames\<close> are neither
  returned nor scored: the answer of \<^verbatim>\<open>/filter\<close> carries no \<^verbatim>\<open>nodenames\<close>.
\<close>

theorem dormant_no_opinion:
  assumes "state s = StateIdle"
  shows "fst (handleFilter cluster (Some args) s) =
           Status200 \<lparr>res_Nodes = args_Nodes args, res_NodeNames = None, FailedNodes = [],
                      res_Error = []\<rparr>
       \<and> fst (handlePrioritize cluster (Some args) s) =
           Status200 (case args_Nodes args of
                        None \<Rightarrow> []
                      | Some items \<Rightarrow> map (\<lambda>node. \<lparr>Host = node_Name node, Score = 0\<rparr>) items)"
  using assms
  by (simp add: handleFilter_def handlePrioritize_def GetState_def Let_def noOpinion_def
      equalScores_def split: option.splits)

theorem dormant_no_opinion_witness:
  "state (NewNEXUSScheduler example_env) = StateIdle
   \<and> fst (handleFilter example_cluster
            (Some \<lparr>args_Pod = Some example_pod,
                   args_Nodes = Some [example_h1, example_h2, example_h3],
                   args_NodeNames = None\<rparr>)
            (NewNEXUSScheduler example_env)) =
       Status200 \<lparr>res_Nodes = Some [example_h1, example_h2, example_h3], res_NodeNames = None,
                  FailedNodes = [], res_Error = []\<rparr>
   \<and> fst (handlePrioritize example_cluster
            (Some \<lparr>args_Pod = Some example_pod,
                   args_Nodes = Some [example_h1, example_h2, example_h3],
                   args_NodeNames = None\<rparr>)
            (NewNEXUSScheduler example_env)) =
       Status200 [\<lparr>Host = ''h1'', Score = 0\<rparr>, \<lparr>Host = ''h2'', Score = 0\<rparr>,
                  \<lparr>Host = ''h3'', Score = 0\<rparr>]"
proof -
  have idle: "state (NewNEXUSScheduler example_env) = StateIdle"
    by (simp add: NewNEXUSScheduler_def)
  show ?thesis
    using idle dormant_no_opinion[OF idle, of example_cluster
        "\<lparr>args_Pod = Some example_pod, args_Nodes = Some [example_h1, example_h2, example_h3],
          args_NodeNames = None\<rparr>"]
    by (simp add: example_h1_def example_h2_def example_h3_def)
qed

text \<open>
  Claim C2 says that \<^verbatim>\<open>/filter\<close> never answers a non-empty candidate list with an empty
  one. In the run above the scheduler is active and the pod of \<^verbatim>\<open>cartservice\<close> is in the
  gang of \<^verbatim>\<open>checkout-flow\<close>. The only candidate, \<open>h3\<close>, hosts a gang member and is
  cordoned: the handler drops it and answers with no node at all, although its own
  comment promises to keep some node available.
\<close>

theorem filter_returns_no_host:
  "fst (handleFilter example_cluster
          (Some \<lparr>args_Pod = Some example_pod, args_Nodes = Some [example_h3], args_NodeNames = None\<rparr>)
          example_active) =
     Status200 \<lparr>res_Nodes = Some [], res_NodeNames = None,
                FailedNodes = [(''h3'', ''Node not schedulable'')], res_Error = []\<rparr>"
  by (simp add: handleFilter_def Let_def GetState_def example_active_state example_gang_for_pod
      nodesWithMembers_def keepSchedulable_def example_counts example_schedulable)
     (simp add: example_h3_def)

text \<open>
  Claim C3 says that a host with one more gang member always scores strictly higher.
  In the run above \<open>h2\<close> hosts one gang member and \<open>h1\<close> hosts none, yet \<open>h1\<close>
  scores 150 and \<open>h2\<close> scores 140: the two resource caps add up to 150, more than the
  100 points of one co-located member.
\<close>

theorem peer_host_scores_lower:
  "countGangMembersOnNode example_cluster example_h2 (Some example_gang) = 1
   \<and> countGangMembersOnNode example_cluster example_h1 (Some example_gang) = 0
   \<and> scoreNode example_cluster example_pod example_h2 (Some example_gang)
       < scoreNode example_cluster example_pod example_h1 (Some example_gang)
   \<and> fst (handlePrioritize example_cluster
          (Some \<lparr>args_Pod = Some example_pod, args_Nodes = Some [example_h1, example_h2], args_NodeNames = None\<rparr>)
          example_active) =
     Status200 [\<lparr>Host = ''h1'', Score = 150\<rparr>, \<lparr>Host = ''h2'', Score = 140\<rparr>]"
  by (simp add: handlePrioritize_def Let_def GetState_def example_active_state example_gang_for_pod
      ScoreForExtender_def example_scores example_counts)
     (simp add: example_h1_def example_h2_def)

text \<open>
  Claim C7: for a pod in a gang while the scheduler is active, \<^verbatim>\<open>/prioritize\<close> gives
  every candidate node the score of the specification,
  \<open>count * 100 + min (cpu / 100 * 10) 100 + min (memory / (100 * 1024 * 1024)) 50\<close> in integer
  arithmetic, where \<open>count\<close> is what \<^verbatim>\<open>countGangMembersOnNode\<close> returns: when the gang has
  members and the pods of the node are listed, the number of those pods whose service
  name equals a gang member up to case.
\<close>

theorem prioritize_score_formula:
  assumes "state s = StateActive" and "args_Pod args = Some pod" and "args_Nodes args = Some items"
    and "GetGangForPod (gangManager s) pod = Some gang"
  shows "fst (handlePrioritize cluster (Some args) s) =
           Status200 (map (\<lambda>node. \<lparr>Host = node_Name node,
                                    Score = spec_score (countGangMembersOnNode cluster node (Some gang))
                                              (cpuMillis node) (memBytes node)\<rparr>) items)
       \<and> (Members gang \<noteq> [] \<and> cluster (node_Name node) = Inr pods \<longrightarrow>
            countGangMembersOnNode cluster node (Some gang) =
              length (filter (\<lambda>p. list_ex (EqualFold (extractServiceName (pod_Name p))) (Members gang)) pods))"
  using assms
  by (simp add: handlePrioritize_def GetState_def Let_def ScoreForExtender_def scoreNode_spec
      countGangMembersOnNode_def countLoop_acc)

theorem prioritize_score_formula_witness:
  "state example_active = StateActive
   \<and> GetGangForPod (gangManager example_active) example_pod = Some example_gang
   \<and> Members example_gang \<noteq> []
   \<and> example_cluster (node_Name example_h2) = Inr [\<lparr>pod_Name = ''paymentservice-6d5f7c9b8-x2k4q'', Annotations = []\<rparr>]
   \<and> countGangMembersOnNode example_cluster example_h2 (Some example_gang) = 1
   \<and> fst (handlePrioritize example_cluster
            (Some \<lparr>args_Pod = Some example_pod,
                   args_Nodes = Some [example_h1, example_h2, example_h3],
                   args_NodeNames = None\<rparr>)
            example_active) =
       Status200 [\<lparr>Host = ''h1'', Score = 150\<rparr>, \<lparr>Host = ''h2'', Score = 140\<rparr>,
                  \<lparr>Host = ''h3'', Score = 250\<rparr>]"
proof -
  have sc: "spec_score 0 (cpuMillis example_h1) (memBytes example_h1) = 150"
    "spec_score (Suc 0) (cpuMillis example_h2) (memBytes example_h2) = 140"
    "spec_score (Suc 0) (cpuMillis example_h3) (memBytes example_h3) = 250"
    by (simp_all add: spec_score_def quo_def example_h1_def example_h2_def example_h3_def)
  have nm: "node_Name example_h1 = ''h1''" "node_Name example_h2 = ''h2''" "node_Name example_h3 = ''h3''"
    by (simp_all add: example_h1_def example_h2_def example_h3_def)
  have mem: "Members example_gang \<noteq> []" by (simp add: example_gang_def)
  have cl: "example_cluster (node_Name example_h2) = Inr [\<lparr>pod_Name = ''paymentservice-6d5f7c9b8-x2k4q'', Annotations = []\<rparr>]"
    by (simp add: nm example_cluster_def)
  let ?args = "\<lparr>args_Pod = Some example_pod, args_Nodes = Some [example_h1, example_h2, example_h3],
             args_NodeNames = None\<rparr>"
  have p: "args_Pod ?args = Some example_pod" by simp
  have n: "args_Nodes ?args = Some [example_h1, example_h2, example_h3]" by simp
  note t = prioritize_score_formula[OF example_active_state(1) p n example_gang_for_pod,
      where cluster = example_cluster and node = example_h2
        and pods = "[\<lparr>pod_Name = ''paymentservice-6d5f7c9b8-x2k4q'', Annotations = []\<rparr>]"]
  have r: "fst (handlePrioritize example_cluster (Some ?args) example_active) =
       Status200 [\<lparr>Host = ''h1'', Score = 150\<rparr>, \<lparr>Host = ''h2'', Score = 140\<rparr>,
                  \<lparr>Host = ''h3'', Score = 250\<rparr>]"
    using t by (simp add: example_counts sc nm)
  show ?thesis
    using r example_active_state(1) example_gang_for_pod mem cl example_counts(2) by simp
qed

section \<open>The state machine\<close>



text \<open>
  Claim C5: when the detector reports a spike in the dormant state and listing the pods
  fails, the state stays dormant, the set of active gangs stays empty and the graph stays
  empty; at a later tick the detector is consulted again, and a spike with a listing that
  succeeds activates the scheduler and forms gangs.
\<close>

theorem build_failure_keeps_dormant:
  assumes "reachable env s" and "state s = StateIdle" and "Detect (spikeDetector s) tel 0"
    and "s' = checkForSpike tel (Inl err) idNano createdAt now s"
  shows "state s' = StateIdle
       \<and> activeGangs (gangManager s') = []
       \<and> GetActiveGangCount (gangManager s') = 0
       \<and> groups (depGraph s') = []
       \<and> (Detect (spikeDetector s') tel2 0 \<longrightarrow>
            state (checkForSpike tel2 (Inr pods) idNano2 createdAt2 now2 s') = StateActive
            \<and> activeGangs (gangManager (checkForSpike tel2 (Inr pods) idNano2 createdAt2 now2 s')) \<noteq> [])"
proof -
  have inv: "activeGangs (gangManager s) = []" "groups (depGraph s) = []"
    using reachable_invariant[OF assms(1)] assms(2) by simp_all
  have s': "s' = s\<lparr>gangManager := SetStage GangStageGraphBuilt (SetStage GangStageDetected (gangManager s)),
       metrics := IncrementCounter ''spike_events'' (metrics s)\<rparr>"
    using assms by (simp add: checkForSpike_build_failed)
  then have idle: "state s' = StateIdle" using assms(2) by simp
  show ?thesis using idle inv s' checkForSpike_activates[OF idle, of tel2 pods idNano2 createdAt2 now2]
    by (simp add: GetActiveGangCount_def)
qed

theorem build_failure_keeps_dormant_witness:
  "reachable example_env (NewNEXUSScheduler example_env)
   \<and> state (NewNEXUSScheduler example_env) = StateIdle
   \<and> Detect (spikeDetector (NewNEXUSScheduler example_env)) example_spike 0
   \<and> state (checkForSpike example_spike (Inl ListFailed) (example_idNano 1700000000000000000)
              (example_createdAt example_t0) example_t0 (NewNEXUSScheduler example_env)) = StateIdle
   \<and> activeGangs (gangManager
        (checkForSpike example_spike (Inl ListFailed) (example_idNano 1700000000000000000)
           (example_createdAt example_t0) example_t0 (NewNEXUSScheduler example_env))) = []
   \<and> Detect (spikeDetector
        (checkForSpike example_spike (Inl ListFailed) (example_idNano 1700000000000000000)
           (example_createdAt example_t0) example_t0 (NewNEXUSScheduler example_env))) example_spike 0
   \<and> state (checkForSpike example_spike (Inr []) (example_idNano 1700000010000000000)
              (example_createdAt (example_t0 + 10000000000)) (example_t0 + 10000000000)
              (checkForSpike example_spike (Inl ListFailed) (example_idNano 1700000000000000000)
                 (example_createdAt example_t0) example_t0 (NewNEXUSScheduler example_env)))
       = StateActive"
proof -
  let ?s = "NewNEXUSScheduler example_env"
  let ?s' = "checkForSpike example_spike (Inl ListFailed) (example_idNano 1700000000000000000)
              (example_createdAt example_t0) example_t0 ?s"
  have idle: "state ?s = StateIdle" by (simp add: NewNEXUSScheduler_def)
  have spike: "Detect (spikeDetector ?s) example_spike 0"
    by (simp add: NewNEXUSScheduler_def Detect_example_spike)
  have spike': "Detect (spikeDetector ?s') example_spike 0"
    using spike idle by (simp add: checkForSpike_build_failed)
  show ?thesis
    using build_failure_keeps_dormant[OF reachable.init idle spike refl,
        of ListFailed "example_idNano 1700000000000000000" "example_createdAt example_t0" example_t0
           example_spike "[]" "example_idNano 1700000010000000000"
           "example_createdAt (example_t0 + 10000000000)" "example_t0 + 10000000000"]
      reachable.init[of example_env] idle spike spike'
    by simp
qed

text \<open>
  Claim C10: in every state of a run the fallback threshold is 5 and both timers pass the
  fallback signal 0, so when the liveness probe of the telemetry backend fails the
  detector answers false: a tick of the spike watcher changes nothing, and a tick of the
  cooldown checker after the cooldown window returns the scheduler to the dormant state.
\<close>

theorem fallback_never_activates:
  assumes "reachable env s" and "\<not> isPrometheusReachable tel"
  shows "\<not> Detect (spikeDetector s) tel 0
       \<and> checkForSpike tel listed idNano createdAt now s = s
       \<and> (state s = StateActive \<and> now - lastSpikeTime s > cooldownDuration
            \<longrightarrow> state (cooldownTick now tel now' s) = StateIdle)"
proof -
  have "spikeDetector s = NewSpikeDetector env"
    using reachable_invariant[OF assms(1)] by simp
  then have quiet: "\<not> Detect (spikeDetector s) tel 0"
    using assms(2) by (simp add: Detect_unreachable NewSpikeDetector_def)
  then show ?thesis by (simp add: cooldownTick_dissolves)
qed

theorem fallback_never_activates_witness:
  "reachable example_env example_active
   \<and> \<not> isPrometheusReachable example_unreachable
   \<and> \<not> Detect (spikeDetector example_active) example_unreachable 0
   \<and> checkForSpike example_unreachable (Inr []) (example_idNano 1700000000000000000)
         (example_createdAt example_t0) example_t0 (NewNEXUSScheduler example_env)
       = NewNEXUSScheduler example_env
   \<and> state example_active = StateActive
   \<and> example_t0 + 31000000000 - lastSpikeTime example_active > cooldownDuration
   \<and> state (cooldownTick (example_t0 + 31000000000) example_unreachable
              (example_t0 + 31000000000) example_active) = StateIdle"
  using fallback_never_activates[OF example_active_reachable Detect_example_unreachable,
      of "Inr []" "example_idNano 0" "example_createdAt 0" "example_t0 + 31000000000"
         "example_t0 + 31000000000"]
    fallback_never_activates[OF reachable.init Detect_example_unreachable,
      of example_env "Inr []" "example_idNano 1700000000000000000"
         "example_createdAt example_t0" example_t0 example_t0]
    example_active_reachable Detect_example_unreachable example_active_state(1) example_elapsed
  by simp

section \<open>The counter of dissolved gangs\<close>

text \<open>An activation counts one formation, however many gangs it forms.\<close>

lemma activation_counts_one_formation:
  assumes "state s = StateIdle" and "Detect (spikeDetector s) tel 0"
  shows "gangsFormed (metrics (checkForSpike tel (Inr pods) idNano createdAt now s))
           = gangsFormed (metrics s) + 1"
proof -
  obtain dg where dg: "BuildFromAnnotations (Inr pods) (depGraph s) = Inr dg"
    using BuildFromAnnotations_Inr_ex by blast
  then have ne: "groups dg \<noteq> []" using BuildFromAnnotations_Inr by blast
  show ?thesis using assms dg ne
    by (simp add: checkForSpike_def GetState_def Let_def GetGroups_def FormGangs_def
        SetState_def IncrementCounter_def)
qed

text \<open>
  Claim C9 as stated fails on the run above: the activation formed two gangs, and the
  cooldown transition that dissolves both raises the counter of dissolved gangs from 0
  to 1.
\<close>

theorem dissolved_counter_counterexample:
  "GetActiveGangCount (gangManager example_active) = 2
   \<and> gangsDisssolved (metrics example_active) = 0
   \<and> state (cooldownTick (example_t0 + 31000000000) example_quiet (example_t0 + 31000000000)
              example_active) = StateIdle
   \<and> gangsDisssolved
        (metrics (cooldownTick (example_t0 + 31000000000) example_quiet
                    (example_t0 + 31000000000) example_active)) = 1"
proof -
  have quiet: "\<not> Detect (spikeDetector example_active) example_quiet 0"
    by (simp add: example_active_state Detect_example_quiet)
  show ?thesis
    by (simp add: cooldownTick_dissolves[OF example_active_state(1) example_elapsed quiet]
        GetActiveGangCount_def example_active_gangManager example_active_metrics
        DissolveAll_def Let_def SetState_def IncrementCounter_def SetStage_def example_active_state)
qed

text \<open>
  Claim C9, amended: the cooldown transition raises the counter of dissolved gangs by
  exactly one, whatever the number of gangs formed at the preceding activation (which
  raised the counter of formed gangs by one as well).
\<close>

theorem dissolved_counter_counts_dissolutions:
  assumes "reachable env s" and "state s = StateActive"
    and "now - lastSpikeTime s > cooldownDuration" and "\<not> Detect (spikeDetector s) tel 0"
  shows "state (cooldownTick now tel now' s) = StateIdle
       \<and> gangsDisssolved (metrics (cooldownTick now tel now' s)) = gangsDisssolved (metrics s) + 1"
proof -
  have "activeGangs (gangManager s) \<noteq> []"
    using reachable_invariant[OF assms(1)] assms(2) by simp
  then show ?thesis using assms
    by (simp add: cooldownTick_dissolves SetState_def DissolveAll_def Let_def IncrementCounter_def)
qed

theorem dissolved_counter_counts_dissolutions_witness:
  "reachable example_env example_active
   \<and> state example_active = StateActive
   \<and> example_t0 + 31000000000 - lastSpikeTime example_active > cooldownDuration
   \<and> \<not> Detect (spikeDetector example_active) example_quiet 0
   \<and> state (cooldownTick (example_t0 + 31000000000) example_quiet (example_t0 + 31000000000)
              example_active) = StateIdle
   \<and> gangsDisssolved
        (metrics (cooldownTick (example_t0 + 31000000000) example_quiet
                    (example_t0 + 31000000000) example_active))
       = gangsDisssolved (metrics example_active) + 1"
proof -
  have quiet: "\<not> Detect (spikeDetector example_active) example_quiet 0"
    by (simp add: example_active_state Detect_example_quiet)
  show ?thesis
    using dissolved_counter_counts_dissolutions[OF example_active_reachable
        example_active_state(1) example_elapsed quiet, of "example_t0 + 31000000000"]
      example_active_reachable example_active_state(1) example_elapsed quiet
    by simp
qed

section \<open>Gang membership and the service index\<close>

text \<open>
  Claim C6 as stated fails after the activation on the annotated inventory: the groups
  \<^verbatim>\<open>checkout-flow\<close> and \<^verbatim>\<open>browse\<close> both list \<^verbatim>\<open>cartservice\<close>, and so do the two
  active gangs formed from them. Neither the graph builder nor \<^verbatim>\<open>FormGangs\<close> keeps the
  groups apart.
\<close>

theorem service_in_two_gangs_counterexample:
  "state example_overlap = StateActive
   \<and> map_option Members
        (map_of (activeGangs (gangManager example_overlap)) ''gang-checkout-flow-1700000000000000000'')
       = Some [''checkoutservice'', ''cartservice'', ''paymentservice'']
   \<and> map_option Members
        (map_of (activeGangs (gangManager example_overlap)) ''gang-browse-1700000000000000001'')
       = Some [''frontend'', ''cartservice'']"
  by (simp add: example_overlap_state example_overlap_gangs)

text \<open>
  Claim C6, amended: in every state of a run the service index has one entry for each
  service; every entry names an active gang that lists the service; every member of an
  active gang has a gang in the index that lists it; and when the groups of the graph are
  pairwise disjoint, so are the member lists of any two active gangs. A service listed by
  two groups is a member of both gangs, and the index keeps one of them.
\<close>

theorem gang_index_consistent:
  assumes "reachable env s"
  shows "distinct (map fst (serviceToGang (gangManager s)))
       \<and> (\<forall>svc gid. map_of (serviceToGang (gangManager s)) svc = Some gid \<longrightarrow>
             (\<exists>g. map_of (activeGangs (gangManager s)) gid = Some g \<and> svc \<in> set (Members g)))
       \<and> (\<forall>gid g svc. map_of (activeGangs (gangManager s)) gid = Some g \<and> svc \<in> set (Members g) \<longrightarrow>
             (\<exists>g'. GetGangForService (gangManager s) svc = Some g' \<and> svc \<in> set (Members g')))
       \<and> ((\<forall>i j. i < length (groups (depGraph s)) \<and> j < length (groups (depGraph s)) \<and> i \<noteq> j \<longrightarrow>
               set (Services (groups (depGraph s) ! i)) \<inter> set (Services (groups (depGraph s) ! j)) = {})
            \<longrightarrow> (\<forall>gid1 g1 gid2 g2. gid1 \<noteq> gid2
                     \<and> map_of (activeGangs (gangManager s)) gid1 = Some g1
                     \<and> map_of (activeGangs (gangManager s)) gid2 = Some g2 \<longrightarrow>
                   set (Members g1) \<inter> set (Members g2) = {}))"
proof -
  let ?gm = "gangManager s" and ?grps = "groups (depGraph s)"
  obtain idNano where f: "formedFrom idNano ?grps ?gm"
    using reachable_formedFrom[OF assms] by blast
  then have d1: "distinct (map fst (serviceToGang ?gm))"
    and i2: "\<And>svc gid. map_of (serviceToGang ?gm) svc = Some gid \<Longrightarrow>
              \<exists>g. map_of (activeGangs ?gm) gid = Some g \<and> svc \<in> set (Members g)"
    and i3: "\<And>gid g svc. map_of (activeGangs ?gm) gid = Some g \<Longrightarrow> svc \<in> set (Members g) \<Longrightarrow>
              map_of (serviceToGang ?gm) svc \<noteq> None"
    and i5: "\<And>gid g. map_of (activeGangs ?gm) gid = Some g \<Longrightarrow>
              \<exists>k<length ?grps. gid = gangID (group_Name (?grps ! k)) (idNano k)
                \<and> gang_ID g = gid \<and> Members g = Services (?grps ! k)"
    unfolding formedFrom_def by blast+
  have c: "\<forall>gid g svc. map_of (activeGangs ?gm) gid = Some g \<and> svc \<in> set (Members g) \<longrightarrow>
             (\<exists>g'. GetGangForService ?gm svc = Some g' \<and> svc \<in> set (Members g'))"
  proof (intro allI impI)
    fix gid g svc assume a: "map_of (activeGangs ?gm) gid = Some g \<and> svc \<in> set (Members g)"
    then obtain gid' where gid': "map_of (serviceToGang ?gm) svc = Some gid'"
      using i3 by blast
    from i2[OF this] show "\<exists>g'. GetGangForService ?gm svc = Some g' \<and> svc \<in> set (Members g')"
      using gid' by (auto simp: GetGangForService_def)
  qed
  have d: "(\<forall>i j. i < length ?grps \<and> j < length ?grps \<and> i \<noteq> j \<longrightarrow>
               set (Services (?grps ! i)) \<inter> set (Services (?grps ! j)) = {})
            \<longrightarrow> (\<forall>gid1 g1 gid2 g2. gid1 \<noteq> gid2
                     \<and> map_of (activeGangs ?gm) gid1 = Some g1
                     \<and> map_of (activeGangs ?gm) gid2 = Some g2 \<longrightarrow>
                   set (Members g1) \<inter> set (Members g2) = {})"
  proof (intro impI allI)
    fix gid1 g1 gid2 g2
    assume disj: "\<forall>i j. i < length ?grps \<and> j < length ?grps \<and> i \<noteq> j \<longrightarrow>
               set (Services (?grps ! i)) \<inter> set (Services (?grps ! j)) = {}"
      and a: "gid1 \<noteq> gid2 \<and> map_of (activeGangs ?gm) gid1 = Some g1
                \<and> map_of (activeGangs ?gm) gid2 = Some g2"
    obtain k1 where k1: "k1 < length ?grps" "gid1 = gangID (group_Name (?grps ! k1)) (idNano k1)"
        "Members g1 = Services (?grps ! k1)"
      using i5[of gid1 g1] a by blast
    obtain k2 where k2: "k2 < length ?grps" "gid2 = gangID (group_Name (?grps ! k2)) (idNano k2)"
        "Members g2 = Services (?grps ! k2)"
      using i5[of gid2 g2] a by blast
    have "k1 \<noteq> k2" using a k1(2) k2(2) by auto
    then show "set (Members g1) \<inter> set (Members g2) = {}"
      using disj k1 k2 by simp
  qed
  show ?thesis using d1 i2 c d by blast
qed

theorem gang_index_consistent_witness:
  "reachable example_env example_active
   \<and> distinct (map fst (serviceToGang (gangManager example_active)))
   \<and> map_of (serviceToGang (gangManager example_active)) ''cartservice''
       = Some ''gang-checkout-flow-1700000000000000000''
   \<and> (\<exists>g. map_of (activeGangs (gangManager example_active)) ''gang-checkout-flow-1700000000000000000''
             = Some g \<and> ''cartservice'' \<in> set (Members g))
   \<and> map_of (activeGangs (gangManager example_active)) ''gang-product-browsing-1700000000000000001''
       = Some example_gang2
   \<and> ''frontend'' \<in> set (Members example_gang2)
   \<and> (\<exists>g'. GetGangForService (gangManager example_active) ''frontend'' = Some g'
              \<and> ''frontend'' \<in> set (Members g'))
   \<and> map_of (activeGangs (gangManager example_active)) ''gang-checkout-flow-1700000000000000000''
       = Some example_gang
   \<and> set (Members example_gang) \<inter> set (Members example_gang2) = {}"
proof -
  note t = gang_index_consistent[OF example_active_reachable]
  have idx: "map_of (serviceToGang (gangManager example_active)) ''cartservice''
       = Some ''gang-checkout-flow-1700000000000000000''"
    by (simp add: example_active_gangManager)
  have g1: "map_of (activeGangs (gangManager example_active)) ''gang-checkout-flow-1700000000000000000''
       = Some example_gang"
    by (simp add: example_active_gangManager)
  have g2: "map_of (activeGangs (gangManager example_active)) ''gang-product-browsing-1700000000000000001''
       = Some example_gang2"
    by (simp add: example_active_gangManager example_gang2_def)
  have m: "''frontend'' \<in> set (Members example_gang2)" by (simp add: example_gang2_def)
  have disj: "\<forall>i j. i < length (groups (depGraph example_active))
                 \<and> j < length (groups (depGraph example_active)) \<and> i \<noteq> j \<longrightarrow>
               set (Services (groups (depGraph example_active) ! i))
                 \<inter> set (Services (groups (depGraph example_active) ! j)) = {}"
    unfolding example_active_groups by (intro allI) (rule defaults_disjoint)
  have ne: "''gang-checkout-flow-1700000000000000000'' \<noteq> ''gang-product-browsing-1700000000000000001''"
    by simp
  have a: "distinct (map fst (serviceToGang (gangManager example_active)))"
    by (rule t[THEN conjunct1])
  have b: "\<exists>g. map_of (activeGangs (gangManager example_active)) ''gang-checkout-flow-1700000000000000000''
             = Some g \<and> ''cartservice'' \<in> set (Members g)"
    by (rule t[THEN conjunct2, THEN conjunct1, rule_format, OF idx])
  have c: "\<exists>g'. GetGangForService (gangManager example_active) ''frontend'' = Some g'
              \<and> ''frontend'' \<in> set (Members g')"
    by (rule t[THEN conjunct2, THEN conjunct2, THEN conjunct1, rule_format, OF conjI[OF g2 m]])
  have d: "set (Members example_gang) \<inter> set (Members example_gang2) = {}"
  proof -
    note all = mp[OF t[THEN conjunct2, THEN conjunct2, THEN conjunct2] disj]
    note inst = all[THEN spec[where x = "''gang-checkout-flow-1700000000000000000''"],
        THEN spec[where x = example_gang],
        THEN spec[where x = "''gang-product-browsing-1700000000000000001''"],
        THEN spec[where x = example_gang2]]
    show ?thesis by (rule mp[OF inst conjI[OF ne conjI[OF g1 g2]]])
  qed
  show ?thesis
    by (intro conjI) (fact example_active_reachable a idx b g2 m c g1 d)+
qed

end
